theory Spec2Isabelle
  imports Complex_Main
begin

section \<open>The validation engine of \<^verbatim>\<open>src/utils/validationUtils.ts\<close>\<close>

text \<open>
  The engine is one TypeScript function, \<^verbatim>\<open>validateAllData\<close>, whose inner functions
  share the accumulator \<^verbatim>\<open>{ errors, summary, suggestions }\<close>. It is embedded here as
  state-passing HOL functions over a model of the JavaScript values it handles.

  Scope of the value model:
  \<^item> strings are byte strings (ASCII text); white space is the ASCII white space;
  \<^item> numbers are exact rationals and \<open>NaN\<close>: the rounding of IEEE doubles, \<open>Infinity\<close>,
    and the exponent notation that \<^verbatim>\<open>ToString\<close> uses for very large or very small
    numbers are not modelled; numeric text in hexadecimal, octal or binary notation is read
    by \<^verbatim>\<open>Number\<close> as \<open>NaN\<close> here;
  \<^item> objects are association lists or maps of their own properties: properties inherited
    from \<^verbatim>\<open>Object.prototype\<close> (a key such as \<^verbatim>\<open>constructor\<close>) are not modelled;
  \<^item> a JSON escape \<^verbatim>\<open>\uXXXX\<close> is kept as the byte of its code (modulo 256).
\<close>

subsection \<open>JavaScript values and coercions\<close>

datatype jsval =
    Undefined
  | Null
  | Bool bool
  | Num rat
  | NaN
  | Str string
  | Arr "jsval list"
  | Obj "(string \<times> jsval) list"

datatype exn = TypeError | SyntaxError

text \<open>\<^verbatim>\<open>if (v)\<close>, \<^verbatim>\<open>!v\<close>, \<^verbatim>\<open>v || d\<close>: the falsy values are \<^verbatim>\<open>undefined\<close>,
  \<^verbatim>\<open>null\<close>, \<^verbatim>\<open>false\<close>, \<open>0\<close>, \<open>NaN\<close> and the empty string.\<close>

fun truthy :: "jsval \<Rightarrow> bool" where
  "truthy Undefined = False"
| "truthy Null = False"
| "truthy (Bool b) = b"
| "truthy (Num r) = (r \<noteq> 0)"
| "truthy NaN = False"
| "truthy (Str s) = (s \<noteq> [])"
| "truthy (Arr xs) = True"
| "truthy (Obj kvs) = True"

definition js_or :: "jsval \<Rightarrow> jsval \<Rightarrow> jsval" where
  "js_or a b = (if truthy a then a else b)"

text \<open>Decimal digits.\<close>

definition is_digit :: "char \<Rightarrow> bool" where
  "is_digit c = (48 \<le> (of_char c :: nat) \<and> (of_char c :: nat) \<le> 57)"

definition digit_val :: "char \<Rightarrow> nat" where
  "digit_val c = of_char c - 48"

definition digit_char :: "nat \<Rightarrow> char" where
  "digit_char d = char_of (48 + d)"

definition nat_of_digits :: "string \<Rightarrow> nat" where
  "nat_of_digits ds = foldl (\<lambda>n c. 10 * n + digit_val c) 0 ds"

fun dec_nat :: "nat \<Rightarrow> string" where
  "dec_nat n = (if n < 10 then [digit_char n] else dec_nat (n div 10) @ [digit_char (n mod 10)])"

declare dec_nat.simps [simp del]

definition dec_int :: "int \<Rightarrow> string" where
  "dec_int i = (if i < 0 then CHR ''-'' # dec_nat (nat (- i)) else dec_nat (nat i))"

text \<open>The digits after the decimal point of \<open>r / b\<close>, for a terminating decimal.\<close>

primrec frac_digits :: "nat \<Rightarrow> nat \<Rightarrow> nat \<Rightarrow> string" where
  "frac_digits 0 r b = []"
| "frac_digits (Suc fuel) r b =
     (if r = 0 then [] else digit_char ((r * 10) div b) # frac_digits fuel ((r * 10) mod b) b)"

definition num_to_string :: "rat \<Rightarrow> string" where
  "num_to_string r =
     (let (a, b) = quotient_of r
      in if b = 1 then dec_int a
         else (if a < 0 then ''-'' else '''') @ dec_nat (nat \<bar>a\<bar> div nat b) @ ''.''
              @ frac_digits (nat b) (nat \<bar>a\<bar> mod nat b) (nat b))"

definition join :: "string \<Rightarrow> string list \<Rightarrow> string" where
  "join sep xs = (case xs of [] \<Rightarrow> [] | y # ys \<Rightarrow> y @ concat (map (\<lambda>z. sep @ z) ys))"

text \<open>\<^verbatim>\<open>ToString\<close>: template literals, \<^verbatim>\<open>Array.prototype.join\<close>, property keys and the
  argument of \<^verbatim>\<open>RegExp.prototype.test\<close>. Inside an array, \<^verbatim>\<open>null\<close> and
  \<^verbatim>\<open>undefined\<close> elements print as the empty string.\<close>

fun js_ToString :: "jsval \<Rightarrow> string" where
  "js_ToString Undefined = ''undefined''"
| "js_ToString Null = ''null''"
| "js_ToString (Bool b) = (if b then ''true'' else ''false'')"
| "js_ToString (Num r) = num_to_string r"
| "js_ToString NaN = ''NaN''"
| "js_ToString (Str s) = s"
| "js_ToString (Arr xs) =
     join '','' (map (\<lambda>x. case x of Undefined \<Rightarrow> [] | Null \<Rightarrow> [] | _ \<Rightarrow> js_ToString x) xs)"
| "js_ToString (Obj kvs) = ''[object Object]''"

definition js_join :: "string \<Rightarrow> jsval list \<Rightarrow> string" where
  "js_join sep xs =
     join sep (map (\<lambda>x. case x of Undefined \<Rightarrow> [] | Null \<Rightarrow> [] | _ \<Rightarrow> js_ToString x) xs)"

text \<open>A template part \<^verbatim>\<open>'${x}'\<close>: the text between single quotes.\<close>

definition quoted :: "string \<Rightarrow> string" where
  "quoted s = [CHR 0x27] @ s @ [CHR 0x27]"

subsection \<open>Strings: trim, split, startsWith\<close>

definition is_ws :: "char \<Rightarrow> bool" where
  "is_ws c = ((of_char c :: nat) \<in> {9, 10, 11, 12, 13, 32})"

definition trim :: "string \<Rightarrow> string" where
  "trim s = rev (dropWhile is_ws (rev (dropWhile is_ws s)))"

text \<open>\<^verbatim>\<open>s.split(',')\<close>: the empty string splits into one empty piece.\<close>

fun split_on :: "char \<Rightarrow> string \<Rightarrow> string list" where
  "split_on d [] = [[]]"
| "split_on d (c # cs) =
     (if c = d then [] # split_on d cs
      else (case split_on d cs of [] \<Rightarrow> [[c]] | w # ws \<Rightarrow> (c # w) # ws))"

definition startsWith :: "string \<Rightarrow> string \<Rightarrow> bool" where
  "startsWith s p = (take (length p) s = p)"

text \<open>A method call on a value that is not a string: \<^verbatim>\<open>v.trim()\<close> and \<^verbatim>\<open>v.split(',')\<close>
  throw a TypeError (no such method on a number, an array or an object; no property
  access on \<^verbatim>\<open>undefined\<close> and \<^verbatim>\<open>null\<close>).\<close>

definition js_trim :: "jsval \<Rightarrow> exn + string" where
  "js_trim v = (case v of Str s \<Rightarrow> Inr (trim s) | _ \<Rightarrow> Inl TypeError)"

definition js_split :: "jsval \<Rightarrow> exn + string list" where
  "js_split v = (case v of Str s \<Rightarrow> Inr (split_on CHR '','' s) | _ \<Rightarrow> Inl TypeError)"

text \<open>\<^verbatim>\<open>typeof v === 'string' && v.trim().startsWith('[')\<close>\<close>

definition is_bracket_string :: "jsval \<Rightarrow> bool" where
  "is_bracket_string v = (case v of Str s \<Rightarrow> startsWith (trim s) ''['' | _ \<Rightarrow> False)"

subsection \<open>Numbers from text: \<^verbatim>\<open>Number\<close> and \<^verbatim>\<open>parseInt\<close>\<close>

definition pow10 :: "int \<Rightarrow> rat" where
  "pow10 e = (if 0 \<le> e then 10 ^ nat e else 1 / 10 ^ nat (- e))"

text \<open>An optional exponent part \<^verbatim>\<open>[eE][+-]?digits\<close>: its value and the rest of the text;
  \<open>None\<close> when an exponent mark is not followed by digits.\<close>

definition read_exp :: "string \<Rightarrow> (int \<times> string) option" where
  "read_exp s =
     (case s of
        [] \<Rightarrow> Some (0, [])
      | c # r \<Rightarrow>
          if c = CHR ''e'' \<or> c = CHR ''E'' then
            (let (neg, r1) = (case r of
                                [] \<Rightarrow> (False, [])
                              | x # r' \<Rightarrow> if x = CHR ''-'' then (True, r')
                                         else if x = CHR ''+'' then (False, r') else (False, r));
                 ds = takeWhile is_digit r1
             in if ds = [] then None
                else Some ((if neg then - int (nat_of_digits ds) else int (nat_of_digits ds)),
                           dropWhile is_digit r1))
          else Some (0, s))"

text \<open>\<^verbatim>\<open>StringToNumber\<close> on a trimmed, unsigned decimal literal:
  \<^verbatim>\<open>digits\<close>, \<^verbatim>\<open>digits.\<close>, \<^verbatim>\<open>digits.digits\<close>, \<^verbatim>\<open>.digits\<close>, each with an optional
  exponent.\<close>

definition str_decimal :: "string \<Rightarrow> rat option" where
  "str_decimal s =
     (let ip = takeWhile is_digit s; s1 = dropWhile is_digit s;
          (fp, s2) = (case s1 of
                        [] \<Rightarrow> ([], [])
                      | c # r \<Rightarrow> if c = CHR ''.'' then (takeWhile is_digit r, dropWhile is_digit r)
                                else ([], s1))
      in if ip = [] \<and> fp = [] then None
         else (case read_exp s2 of
                 None \<Rightarrow> None
               | Some (e, rest) \<Rightarrow>
                   if rest \<noteq> [] then None
                   else Some (of_nat (nat_of_digits (ip @ fp)) * pow10 (e - int (length fp)))))"

definition string_to_number :: "string \<Rightarrow> jsval" where
  "string_to_number s =
     (let t = trim s
      in if t = [] then Num 0
         else (let (neg, u) = (case t of
                                 [] \<Rightarrow> (False, [])
                               | c # r \<Rightarrow> if c = CHR ''-'' then (True, r)
                                          else if c = CHR ''+'' then (False, r) else (False, t))
               in case str_decimal u of
                    None \<Rightarrow> NaN
                  | Some q \<Rightarrow> Num (if neg then - q else q)))"

text \<open>\<^verbatim>\<open>Number(v)\<close> and the implicit \<^verbatim>\<open>ToNumber\<close> of comparisons and arithmetic.\<close>

fun js_Number :: "jsval \<Rightarrow> jsval" where
  "js_Number Undefined = NaN"
| "js_Number Null = Num 0"
| "js_Number (Bool b) = Num (if b then 1 else 0)"
| "js_Number (Num r) = Num r"
| "js_Number NaN = NaN"
| "js_Number (Str s) = string_to_number s"
| "js_Number (Arr xs) = string_to_number (js_ToString (Arr xs))"
| "js_Number (Obj kvs) = NaN"

text \<open>\<^verbatim>\<open>parseInt(s)\<close> with no radix: leading white space, an optional sign, then the
  longest run of decimal digits (or of hexadecimal digits after \<^verbatim>\<open>0x\<close>); \<open>NaN\<close> when
  there is no digit.\<close>

definition is_hex :: "char \<Rightarrow> bool" where
  "is_hex c = (is_digit c \<or> (65 \<le> (of_char c :: nat) \<and> (of_char c :: nat) \<le> 70)
                         \<or> (97 \<le> (of_char c :: nat) \<and> (of_char c :: nat) \<le> 102))"

definition hex_val :: "char \<Rightarrow> nat" where
  "hex_val c = (if is_digit c then of_char c - 48
                else if (of_char c :: nat) \<le> 70 then of_char c - 55 else of_char c - 87)"

definition nat_of_hex :: "string \<Rightarrow> nat" where
  "nat_of_hex ds = foldl (\<lambda>n c. 16 * n + hex_val c) 0 ds"

definition parseInt :: "string \<Rightarrow> jsval" where
  "parseInt s =
     (let t = dropWhile is_ws s;
          (neg, u) = (case t of
                        [] \<Rightarrow> (False, [])
                      | c # r \<Rightarrow> if c = CHR ''-'' then (True, r)
                                 else if c = CHR ''+'' then (False, r) else (False, t));
          hex = (startsWith u ''0x'' \<or> startsWith u ''0X'');
          ds = (if hex then takeWhile is_hex (drop 2 u) else takeWhile is_digit u);
          n = (if hex then nat_of_hex ds else nat_of_digits ds)
      in if ds = [] then NaN
         else Num (if neg then - of_nat n else of_nat n))"

subsection \<open>\<^verbatim>\<open>JSON.parse\<close>\<close>

text \<open>The JSON grammar of ECMA-404: a lexer into tokens, then a pushdown automaton over
  the tokens that builds the value. Both are total; a text outside the grammar is a
  SyntaxError.\<close>

datatype token = LBrack | RBrack | LBrace | RBrace | Comma | Colon | Scalar jsval

definition json_ws :: "char \<Rightarrow> bool" where
  "json_ws c = ((of_char c :: nat) \<in> {9, 10, 13, 32})"

definition unescape :: "char \<Rightarrow> char option" where
  "unescape c =
     (if c = CHR 0x22 then Some (CHR 0x22)
      else if c = CHR 0x5C then Some (CHR 0x5C)
      else if c = CHR ''/'' then Some (CHR ''/'')
      else if c = CHR ''b'' then Some (CHR 0x08)
      else if c = CHR ''f'' then Some (CHR 0x0C)
      else if c = CHR ''n'' then Some (CHR 0x0A)
      else if c = CHR ''r'' then Some (CHR 0x0D)
      else if c = CHR ''t'' then Some (CHR 0x09)
      else None)"

text \<open>The text after an opening quote: the decoded string and the rest after the closing
  quote. A raw control character, an unknown escape and a missing closing quote fail.\<close>

fun lex_string :: "string \<Rightarrow> string \<Rightarrow> (string \<times> string) option" where
  "lex_string acc [] = None"
| "lex_string acc (c # cs) =
     (if c = CHR 0x22 then Some (rev acc, cs)
      else if c = CHR 0x5C then
        (case cs of
           [] \<Rightarrow> None
         | e # cs' \<Rightarrow>
             if e = CHR ''u'' then
               (if 4 \<le> length cs' \<and> list_all is_hex (take 4 cs')
                then lex_string (char_of (nat_of_hex (take 4 cs')) # acc) (drop 4 cs')
                else None)
             else (case unescape e of
                     None \<Rightarrow> None
                   | Some ch \<Rightarrow> lex_string (ch # acc) cs'))
      else if (of_char c :: nat) < 32 then None
      else lex_string (c # acc) cs)"

text \<open>A JSON number: \<^verbatim>\<open>-? (0 | [1-9][0-9]*) (. [0-9]+)? ([eE] [+-]? [0-9]+)?\<close>,
  its value and the rest of the text.\<close>

definition read_minus :: "string \<Rightarrow> bool \<times> string" where
  "read_minus s = (case s of
                     [] \<Rightarrow> (False, [])
                   | c # r \<Rightarrow> if c = CHR ''-'' then (True, r) else (False, s))"

definition read_frac :: "string \<Rightarrow> (string \<times> string) option" where
  "read_frac s =
     (case s of
        [] \<Rightarrow> Some ([], [])
      | c # r \<Rightarrow>
          if c = CHR ''.'' then
            (if takeWhile is_digit r = [] then None
             else Some (takeWhile is_digit r, dropWhile is_digit r))
          else Some ([], s))"

definition lex_number :: "string \<Rightarrow> (rat \<times> string) option" where
  "lex_number s =
     (let (neg, s1) = read_minus s;
          ip = takeWhile is_digit s1
      in if ip = [] \<or> (1 < length ip \<and> hd ip = CHR ''0'') then None
         else (case read_frac (dropWhile is_digit s1) of
                 None \<Rightarrow> None
               | Some (fp, s3) \<Rightarrow>
                   (case read_exp s3 of
                      None \<Rightarrow> None
                    | Some (e, s4) \<Rightarrow>
                        Some ((if neg then - 1 else 1)
                                * of_nat (nat_of_digits (ip @ fp)) * pow10 (e - int (length fp)),
                              s4))))"

lemma read_exp_length: "read_exp s = Some (e, r) \<Longrightarrow> length r \<le> length s"
  by (auto simp: read_exp_def Let_def split: list.splits if_splits
           intro: le_trans [OF length_dropWhile_le] le_SucI)

lemma read_frac_length: "read_frac s = Some (fp, r) \<Longrightarrow> length r \<le> length s"
  by (auto simp: read_frac_def split: list.splits if_splits
           intro: le_trans [OF length_dropWhile_le] le_SucI)

lemma read_minus_length: "read_minus s = (neg, r) \<Longrightarrow> length r \<le> length s"
  by (auto simp: read_minus_def split: list.splits if_splits)

lemma dropWhile_shorter: "takeWhile P xs \<noteq> [] \<Longrightarrow> length (dropWhile P xs) < length xs"
  by (cases xs) (auto intro: le_imp_less_Suc length_dropWhile_le split: if_splits)

lemma lex_number_length:
  assumes "lex_number s = Some (q, r)"
  shows "length r < length s"
proof -
  obtain neg s1 where ns: "read_minus s = (neg, s1)"
    by (cases "read_minus s")
  from assms ns have ip: "takeWhile is_digit s1 \<noteq> []"
    by (auto simp: lex_number_def Let_def split: if_splits)
  from assms ns ip obtain fp s3 e where
    fr: "read_frac (dropWhile is_digit s1) = Some (fp, s3)" and ex: "read_exp s3 = Some (e, r)"
    by (auto simp: lex_number_def Let_def split: if_splits option.splits)
  have "length r \<le> length s3"
    by (rule read_exp_length [OF ex])
  also have "\<dots> \<le> length (dropWhile is_digit s1)"
    by (rule read_frac_length [OF fr])
  also have "\<dots> < length s1"
    by (rule dropWhile_shorter [OF ip])
  also have "\<dots> \<le> length s"
    by (rule read_minus_length [OF ns])
  finally show ?thesis .
qed

lemma lex_string_length: "lex_string acc s = Some (t, r) \<Longrightarrow> length r < length s"
proof (induction acc s rule: lex_string.induct)
  case (1 acc)
  then show ?case by simp
next
  case (2 acc c cs)
  show ?case
  proof (cases "c = CHR 0x22")
    case True
    with 2 show ?thesis by simp
  next
    case q: False
    show ?thesis
    proof (cases "c = CHR 0x5C")
      case True
      show ?thesis
      proof (cases cs)
        case Nil
        with 2 q True show ?thesis by simp
      next
        case (Cons e cs')
        show ?thesis
        proof (cases "e = CHR ''u''")
          case u: True
          from "2.prems" q True Cons u have
            hx: "4 \<le> length cs' \<and> list_all is_hex (take 4 cs')" and
            r: "lex_string (char_of (nat_of_hex (take 4 cs')) # acc) (drop 4 cs') = Some (t, r)"
            by (simp_all split: if_splits)
          from "2.IH"(1) [OF q True Cons u hx r] have "length r < length (drop 4 cs')" .
          with Cons show ?thesis by simp
        next
          case nu: False
          from "2.prems" q True Cons nu obtain ch where
            ue: "unescape e = Some ch" and r: "lex_string (ch # acc) cs' = Some (t, r)"
            by (simp split: option.splits)
          from "2.IH"(2) [OF q True Cons nu ue r] Cons show ?thesis by simp
        qed
      qed
    next
      case False
      with "2.prems" q have nc: "\<not> (of_char c :: nat) < 32"
        and r: "lex_string (c # acc) cs = Some (t, r)"
        by (simp_all split: if_splits)
      from "2.IH"(3) [OF q False nc r] show ?thesis by simp
    qed
  qed
qed

function lex :: "string \<Rightarrow> token list option" where
  "lex [] = Some []"
| "lex (c # cs) =
     (if json_ws c then lex cs
      else if c = CHR ''['' then map_option (Cons LBrack) (lex cs)
      else if c = CHR '']'' then map_option (Cons RBrack) (lex cs)
      else if c = CHR ''{'' then map_option (Cons LBrace) (lex cs)
      else if c = CHR ''}'' then map_option (Cons RBrace) (lex cs)
      else if c = CHR '','' then map_option (Cons Comma) (lex cs)
      else if c = CHR '':'' then map_option (Cons Colon) (lex cs)
      else if c = CHR 0x22 then
        (case lex_string [] cs of
           None \<Rightarrow> None
         | Some (s, rest) \<Rightarrow> map_option (Cons (Scalar (Str s))) (lex rest))
      else if c = CHR ''-'' \<or> is_digit c then
        (case lex_number (c # cs) of
           None \<Rightarrow> None
         | Some (q, rest) \<Rightarrow> map_option (Cons (Scalar (Num q))) (lex rest))
      else if take 4 (c # cs) = ''true'' then
        map_option (Cons (Scalar (Bool True))) (lex (drop 3 cs))
      else if take 5 (c # cs) = ''false'' then
        map_option (Cons (Scalar (Bool False))) (lex (drop 4 cs))
      else if take 4 (c # cs) = ''null'' then
        map_option (Cons (Scalar Null)) (lex (drop 3 cs))
      else None)"
  by pat_completeness auto
lemma lex_string_rest: "lex_string acc s = Some x \<Longrightarrow> length (snd x) < Suc (length s)"
  using lex_string_length [of acc s "fst x" "snd x"] by simp

lemma lex_number_rest: "lex_number s = Some x \<Longrightarrow> length (snd x) < length s"
  using lex_number_length [of s "fst x" "snd x"] by simp

termination lex
  apply (relation "measure length")
        apply simp_all
  subgoal for c cs x xa y using lex_string_rest [of "[]" cs x] by (cases x) simp
  subgoal for c cs x xa y using lex_number_rest [of "c # cs" x] by (cases x) simp
  done

datatype frame = FArr "jsval list" | FObj "(string \<times> jsval) list" | FKey string

datatype mode =
    WantValue | WantValueOrClose | WantKeyOrClose | WantKey | WantColon | WantCommaOrClose
  | Finished jsval

text \<open>A value is complete: it closes the text, or it joins the array or the object member
  on top of the stack.\<close>

fun complete :: "jsval \<Rightarrow> frame list \<Rightarrow> (frame list \<times> mode) option" where
  "complete v [] = Some ([], Finished v)"
| "complete v (FArr xs # st) = Some (FArr (xs @ [v]) # st, WantCommaOrClose)"
| "complete v (FKey k # FObj kvs # st) = Some (FObj (kvs @ [(k, v)]) # st, WantCommaOrClose)"
| "complete v _ = None"

fun open_value :: "token \<Rightarrow> frame list \<Rightarrow> (frame list \<times> mode) option" where
  "open_value (Scalar v) st = complete v st"
| "open_value LBrack st = Some (FArr [] # st, WantValueOrClose)"
| "open_value LBrace st = Some (FObj [] # st, WantKeyOrClose)"
| "open_value _ st = None"

fun pda_step :: "token \<Rightarrow> frame list \<times> mode \<Rightarrow> (frame list \<times> mode) option" where
  "pda_step t (st, WantValue) = open_value t st"
| "pda_step t (st, WantValueOrClose) =
     (case (t, st) of
        (RBrack, FArr xs # st') \<Rightarrow> complete (Arr xs) st'
      | _ \<Rightarrow> open_value t st)"
| "pda_step t (st, WantKeyOrClose) =
     (case (t, st) of
        (RBrace, FObj kvs # st') \<Rightarrow> complete (Obj kvs) st'
      | (Scalar (Str k), _) \<Rightarrow> Some (FKey k # st, WantColon)
      | _ \<Rightarrow> None)"
| "pda_step t (st, WantKey) =
     (case t of Scalar (Str k) \<Rightarrow> Some (FKey k # st, WantColon) | _ \<Rightarrow> None)"
| "pda_step t (st, WantColon) = (case t of Colon \<Rightarrow> Some (st, WantValue) | _ \<Rightarrow> None)"
| "pda_step t (st, WantCommaOrClose) =
     (case (t, st) of
        (Comma, FArr xs # st') \<Rightarrow> Some (st, WantValue)
      | (Comma, FObj kvs # st') \<Rightarrow> Some (st, WantKey)
      | (RBrack, FArr xs # st') \<Rightarrow> complete (Arr xs) st'
      | (RBrace, FObj kvs # st') \<Rightarrow> complete (Obj kvs) st'
      | _ \<Rightarrow> None)"
| "pda_step t (st, Finished v) = None"

fun pda_run :: "token list \<Rightarrow> frame list \<times> mode \<Rightarrow> (frame list \<times> mode) option" where
  "pda_run [] c = Some c"
| "pda_run (t # ts) c = (case pda_step t c of None \<Rightarrow> None | Some c' \<Rightarrow> pda_run ts c')"

definition JSON_parse :: "string \<Rightarrow> exn + jsval" where
  "JSON_parse s =
     (case lex s of
        None \<Rightarrow> Inl SyntaxError
      | Some ts \<Rightarrow>
          (case pda_run ts ([], WantValue) of
             Some ([], Finished v) \<Rightarrow> Inr v
           | _ \<Rightarrow> Inl SyntaxError))"

text \<open>Where the engine guards with \<^verbatim>\<open>value.trim().startsWith('[')\<close>, a successful
  \<^verbatim>\<open>JSON.parse\<close> yields an array (lemma \<open>JSON_parse_list_of_bracket\<close> below); the last
  case is there for totality only.\<close>

definition JSON_parse_list :: "jsval \<Rightarrow> exn + jsval list" where
  "JSON_parse_list v =
     (case JSON_parse (js_ToString v) of
        Inl e \<Rightarrow> Inl e
      | Inr (Arr xs) \<Rightarrow> Inr xs
      | Inr _ \<Rightarrow> Inl TypeError)"

subsection \<open>More coercions: comparison, addition, equality of keys\<close>

fun to_primitive :: "jsval \<Rightarrow> jsval" where
  "to_primitive (Arr xs) = Str (js_ToString (Arr xs))"
| "to_primitive (Obj kvs) = Str (js_ToString (Obj kvs))"
| "to_primitive v = v"

fun str_lt :: "string \<Rightarrow> string \<Rightarrow> bool" where
  "str_lt [] [] = False"
| "str_lt [] (y # ys) = True"
| "str_lt (x # xs) [] = False"
| "str_lt (x # xs) (y # ys) =
     ((of_char x :: nat) < of_char y \<or> (x = y \<and> str_lt xs ys))"

text \<open>\<^verbatim>\<open>a < b\<close>: two strings compare as text, anything else as numbers, and a comparison
  with \<open>NaN\<close> is false.\<close>

definition js_lt :: "jsval \<Rightarrow> jsval \<Rightarrow> bool" where
  "js_lt a b =
     (case (to_primitive a, to_primitive b) of
        (Str x, Str y) \<Rightarrow> str_lt x y
      | (x, y) \<Rightarrow> (case (js_Number x, js_Number y) of
                     (Num p, Num q) \<Rightarrow> p < q
                   | _ \<Rightarrow> False))"

definition js_gt :: "jsval \<Rightarrow> jsval \<Rightarrow> bool" where
  "js_gt a b = js_lt b a"

definition is_Str :: "jsval \<Rightarrow> bool" where
  "is_Str v = (case v of Str s \<Rightarrow> True | _ \<Rightarrow> False)"

text \<open>\<^verbatim>\<open>a + b\<close> (as in \<^verbatim>\<open>total += load\<close>): text concatenation as soon as one operand is
  a string, numeric addition otherwise.\<close>

definition js_add :: "jsval \<Rightarrow> jsval \<Rightarrow> jsval" where
  "js_add a b =
     (let x = to_primitive a; y = to_primitive b
      in if is_Str x \<or> is_Str y then Str (js_ToString x @ js_ToString y)
         else (case (js_Number x, js_Number y) of
                 (Num p, Num q) \<Rightarrow> Num (p + q)
               | _ \<Rightarrow> NaN))"

text \<open>\<^verbatim>\<open>SameValueZero\<close>, the equality of \<^verbatim>\<open>Set.has\<close>, \<^verbatim>\<open>Map.has\<close> and
  \<^verbatim>\<open>Array.prototype.includes\<close>: primitives by value; arrays and objects by reference, and
  the engine only ever compares references of different parses or rows.\<close>

fun same_value_zero :: "jsval \<Rightarrow> jsval \<Rightarrow> bool" where
  "same_value_zero (Arr xs) b = False"
| "same_value_zero (Obj kvs) b = False"
| "same_value_zero a b = (a = b)"

definition js_includes :: "jsval list \<Rightarrow> jsval \<Rightarrow> bool" where
  "js_includes xs v = list_ex (\<lambda>x. same_value_zero v x) xs"

text \<open>The test \<^verbatim>\<open>/^\d+$/.test(item)\<close>.\<close>

definition all_digits :: "string \<Rightarrow> bool" where
  "all_digits s = (s \<noteq> [] \<and> list_all is_digit s)"

subsection \<open>Objects with their own-property order\<close>

text \<open>\<^verbatim>\<open>Object.keys\<close> and \<^verbatim>\<open>Object.entries\<close> list the array-index keys in ascending
  numeric order first, then the other keys in insertion order.\<close>

definition is_array_index :: "string \<Rightarrow> bool" where
  "is_array_index k =
     (all_digits k \<and> (k = ''0'' \<or> hd k \<noteq> CHR ''0'')
      \<and> (length k < 10 \<or> (length k = 10 \<and> str_lt k ''4294967295'')))"

text \<open>Between two array-index keys, which have no leading zero, the shorter is the
  smaller, and keys of one length compare as text.\<close>

definition key_before :: "string \<Rightarrow> string \<Rightarrow> bool" where
  "key_before k k' =
     (is_array_index k
      \<and> (\<not> is_array_index k' \<or> length k < length k'
           \<or> (length k = length k' \<and> str_lt k k')))"

fun obj_put :: "string \<Rightarrow> 'a \<Rightarrow> (string \<times> 'a) list \<Rightarrow> (string \<times> 'a) list" where
  "obj_put k v [] = [(k, v)]"
| "obj_put k v ((k', v') # rest) =
     (if k = k' then (k, v) # rest
      else if key_before k k' then (k, v) # (k', v') # rest
      else (k', v') # obj_put k v rest)"

subsection \<open>The accumulator\<close>

datatype entity = Clients | Workers | Tasks

fun entity_name :: "entity \<Rightarrow> string" where
  "entity_name Clients = ''clients''"
| "entity_name Workers = ''workers''"
| "entity_name Tasks = ''tasks''"

type_synonym row = "string \<rightharpoonup> jsval"

text \<open>\<^verbatim>\<open>row[field]\<close>: an absent property reads as \<^verbatim>\<open>undefined\<close>.\<close>

definition getf :: "row \<Rightarrow> string \<Rightarrow> jsval" where
  "getf row f = (case row f of None \<Rightarrow> Undefined | Some v \<Rightarrow> v)"

record result =
  errors :: "entity \<Rightarrow> string \<rightharpoonup> (string \<rightharpoonup> string)"
  summary :: "string list"
  suggestions :: "string list"

definition empty_result :: result where
  "empty_result = \<lparr> errors = (\<lambda>e. Map.empty), summary = [], suggestions = [] \<rparr>"

definition push_summary :: "string \<Rightarrow> result \<Rightarrow> result" where
  "push_summary msg st = st\<lparr> summary := summary st @ [msg] \<rparr>"

definition push_suggestion :: "string \<Rightarrow> result \<Rightarrow> result" where
  "push_suggestion msg st = st\<lparr> suggestions := suggestions st @ [msg] \<rparr>"

text \<open>\<^verbatim>\<open>errors[entity][key] = errors[entity][key] || {}\<close>\<close>

definition ensure_row :: "entity \<Rightarrow> string \<Rightarrow> result \<Rightarrow> result" where
  "ensure_row e k st =
     (case errors st e k of
        Some m \<Rightarrow> st
      | None \<Rightarrow> st\<lparr> errors := (errors st)(e := (errors st e)(k \<mapsto> Map.empty)) \<rparr>)"

text \<open>\<^verbatim>\<open>errors[entity][key][field]\<close>, read and written; every write in the engine follows
  an \<open>ensure_row\<close> of the same key.\<close>

definition get_field :: "entity \<Rightarrow> string \<Rightarrow> string \<Rightarrow> result \<Rightarrow> string option" where
  "get_field e k f st = (case errors st e k of None \<Rightarrow> None | Some m \<Rightarrow> m f)"

definition set_field :: "entity \<Rightarrow> string \<Rightarrow> string \<Rightarrow> string \<Rightarrow> result \<Rightarrow> result" where
  "set_field e k f msg st =
     st\<lparr> errors := (errors st)(e := (errors st e)
           (k \<mapsto> (case errors st e k of None \<Rightarrow> Map.empty | Some m \<Rightarrow> m)(f \<mapsto> msg))) \<rparr>"

text \<open>The key \<^verbatim>\<open>row.id || idx\<close> of a row in the error maps, and the 1-based row number
  of the messages.\<close>

definition row_key :: "row \<Rightarrow> nat \<Rightarrow> string" where
  "row_key row idx = js_ToString (js_or (getf row ''id'') (Num (of_nat idx)))"

definition row_no :: "nat \<Rightarrow> string" where
  "row_no idx = dec_nat (idx + 1)"

text \<open>\<^verbatim>\<open>xs.forEach((x, idx) => ...)\<close> over the accumulator, without and with exceptions.\<close>

primrec forEach :: "(nat \<Rightarrow> 'a \<Rightarrow> 's \<Rightarrow> 's) \<Rightarrow> nat \<Rightarrow> 'a list \<Rightarrow> 's \<Rightarrow> 's" where
  "forEach f i [] s = s"
| "forEach f i (x # xs) s = forEach f (Suc i) xs (f i x s)"

primrec forEachE :: "(nat \<Rightarrow> 'a \<Rightarrow> 's \<Rightarrow> exn + 's) \<Rightarrow> nat \<Rightarrow> 'a list \<Rightarrow> 's \<Rightarrow> exn + 's" where
  "forEachE f i [] s = Inr s"
| "forEachE f i (x # xs) s =
     (case f i x s of Inl e \<Rightarrow> Inl e | Inr s' \<Rightarrow> forEachE f (Suc i) xs s')"

primrec mapE :: "('a \<Rightarrow> exn + 'b) \<Rightarrow> 'a list \<Rightarrow> exn + 'b list" where
  "mapE f [] = Inr []"
| "mapE f (x # xs) =
     (case f x of
        Inl e \<Rightarrow> Inl e
      | Inr y \<Rightarrow> (case mapE f xs of Inl e \<Rightarrow> Inl e | Inr ys \<Rightarrow> Inr (y # ys)))"

subsection \<open>The per-entity checks\<close>

fun requiredColumns :: "entity \<Rightarrow> string list" where
  "requiredColumns Clients =
     [''ClientID'', ''ClientName'', ''PriorityLevel'', ''RequestedTaskIDs'', ''GroupTag'',
      ''AttributesJSON'']"
| "requiredColumns Workers =
     [''WorkerID'', ''WorkerName'', ''Skills'', ''AvailableSlots'', ''MaxLoadPerPhase'',
      ''WorkerGroup'', ''QualificationLevel'']"
| "requiredColumns Tasks =
     [''TaskID'', ''TaskName'', ''Category'', ''Duration'', ''RequiredSkills'',
      ''PreferredPhases'', ''MaxConcurrent'']"

definition mark_missing :: "entity \<Rightarrow> string list \<Rightarrow> nat \<Rightarrow> row \<Rightarrow> result \<Rightarrow> result" where
  "mark_missing entity missing idx row s =
     fold (\<lambda>col. set_field entity (row_key row idx) col ''Required column missing'')
       missing (ensure_row entity (row_key row idx) s)"

definition checkMissingColumns :: "entity \<Rightarrow> row list \<Rightarrow> result \<Rightarrow> result" where
  "checkMissingColumns entity rows st =
     (case rows of
        [] \<Rightarrow> st
      | row0 # _ \<Rightarrow>
          (let missing = filter (\<lambda>col. row0 col = None) (requiredColumns entity)
           in if missing \<noteq> [] then
                forEach (mark_missing entity missing) 0 rows
                  (push_summary (entity_name entity @ '': Missing required columns: ''
                                   @ join '', '' missing) st)
              else st))"

text \<open>The \<^verbatim>\<open>Map\<close> from an identity value to the indices of the rows that carry it, in
  insertion order.\<close>

fun ids_add :: "jsval \<Rightarrow> nat \<Rightarrow> (jsval \<times> nat list) list \<Rightarrow> (jsval \<times> nat list) list" where
  "ids_add v idx [] = [(v, [idx])]"
| "ids_add v idx ((k, is) # rest) =
     (if same_value_zero v k then (k, is @ [idx]) # rest else (k, is) # ids_add v idx rest)"

definition collect_ids :: "string \<Rightarrow> row list \<Rightarrow> (jsval \<times> nat list) list" where
  "collect_ids idField rows =
     forEach (\<lambda>idx row m. if truthy (getf row idField)
                           then ids_add (getf row idField) idx m else m) 0 rows []"

definition mark_duplicate ::
  "entity \<Rightarrow> row list \<Rightarrow> string \<Rightarrow> jsval \<times> nat list \<Rightarrow> result \<Rightarrow> result" where
  "mark_duplicate entity rows idField e s =
     (case e of (v, indices) \<Rightarrow>
        if 1 < length indices then
          fold (\<lambda>idx s'.
                  set_field entity (row_key (rows ! idx) idx) idField
                    (''Duplicate '' @ idField @ '': '' @ js_ToString v)
                    (ensure_row entity (row_key (rows ! idx) idx) s'))
            indices
            (push_summary (entity_name entity @ '': Duplicate '' @ idField @ '' ''
                             @ quoted (js_ToString v) @ '' found in rows ''
                             @ join '', '' (map (\<lambda>i. dec_nat (i + 1)) indices)) s)
        else s)"

definition checkDuplicateIds :: "entity \<Rightarrow> row list \<Rightarrow> string \<Rightarrow> result \<Rightarrow> result" where
  "checkDuplicateIds entity rows idField st =
     fold (mark_duplicate entity rows idField) (collect_ids idField rows) st"

text \<open>Lines 78 to 82: a JSON array when the trimmed text starts with a bracket, else the
  comma-separated pieces, each trimmed.\<close>

definition parse_list_trimmed :: "jsval \<Rightarrow> exn + jsval list" where
  "parse_list_trimmed v =
     (if is_bracket_string v then JSON_parse_list v
      else (case js_split v of
              Inl e \<Rightarrow> Inl e
            | Inr parts \<Rightarrow> Inr (map (\<lambda>s. Str (trim s)) parts)))"

text \<open>The body of each \<^verbatim>\<open>rows.forEach((row, idx) => ...)\<close> is a function of its own,
  named after the check.\<close>

definition flag :: "entity \<Rightarrow> row \<Rightarrow> nat \<Rightarrow> string \<Rightarrow> string \<Rightarrow> string \<Rightarrow> result \<Rightarrow> result" where
  "flag entity row idx field msg line st =
     push_summary line
       (set_field entity (row_key row idx) field msg (ensure_row entity (row_key row idx) st))"

definition checkMalformedLists_row ::
  "entity \<Rightarrow> string \<Rightarrow> bool \<Rightarrow> nat \<Rightarrow> row \<Rightarrow> result \<Rightarrow> result" where
  "checkMalformedLists_row entity field numeric idx row s =
     (let v = getf row field
      in if \<not> truthy v then s
         else (case parse_list_trimmed v of
                 Inl e \<Rightarrow>
                   flag entity row idx field ''Invalid list format''
                     (entity_name entity @ '': Row '' @ row_no idx
                        @ '' has malformed list in '' @ field) s
               | Inr list \<Rightarrow>
                   if numeric then
                     (let invalidItems = filter (\<lambda>item. \<not> all_digits (js_ToString item)) list
                      in if invalidItems \<noteq> [] then
                           flag entity row idx field
                             (''Non-numeric values: '' @ js_join '', '' invalidItems)
                             (entity_name entity @ '': Row '' @ row_no idx
                                @ '' has non-numeric values in '' @ field @ '': ''
                                @ js_join '', '' invalidItems) s
                         else s)
                   else s))"

definition checkMalformedLists ::
  "entity \<Rightarrow> row list \<Rightarrow> string \<Rightarrow> bool \<Rightarrow> result \<Rightarrow> result" where
  "checkMalformedLists entity rows field numeric st =
     forEach (checkMalformedLists_row entity field numeric) 0 rows st"

text \<open>\<^verbatim>\<open>isNaN(numValue) || numValue < min || numValue > max\<close>\<close>

definition out_of_range :: "jsval \<Rightarrow> int \<Rightarrow> int \<Rightarrow> bool" where
  "out_of_range v lo hi =
     (case js_Number v of
        Num q \<Rightarrow> q < of_int lo \<or> of_int hi < q
      | _ \<Rightarrow> True)"

definition checkOutOfRange_row ::
  "entity \<Rightarrow> string \<Rightarrow> int \<Rightarrow> int \<Rightarrow> nat \<Rightarrow> row \<Rightarrow> result \<Rightarrow> result" where
  "checkOutOfRange_row entity field lo hi idx row s =
     (let v = getf row field
      in if v = Undefined \<or> v = Null \<or> v = Str [] then s
         else if out_of_range v lo hi then
           flag entity row idx field
             (''Value must be between '' @ dec_int lo @ '' and '' @ dec_int hi)
             (entity_name entity @ '': Row '' @ row_no idx @ '' '' @ field
                @ '' value '' @ js_ToString v @ '' is out of range [''
                @ dec_int lo @ '', '' @ dec_int hi @ '']'') s
         else s)"

definition checkOutOfRange ::
  "entity \<Rightarrow> row list \<Rightarrow> string \<Rightarrow> int \<Rightarrow> int \<Rightarrow> result \<Rightarrow> result" where
  "checkOutOfRange entity rows field lo hi st =
     forEach (checkOutOfRange_row entity field lo hi) 0 rows st"

definition checkJSONFormat_row :: "entity \<Rightarrow> string \<Rightarrow> nat \<Rightarrow> row \<Rightarrow> result \<Rightarrow> result" where
  "checkJSONFormat_row entity field idx row s =
     (let v = getf row field
      in if \<not> truthy v then s
         else (case JSON_parse (js_ToString v) of
                 Inl e \<Rightarrow>
                   flag entity row idx field ''Invalid JSON format''
                     (entity_name entity @ '': Row '' @ row_no idx
                        @ '' has invalid JSON in '' @ field) s
               | Inr parsed \<Rightarrow> s))"

definition checkJSONFormat :: "entity \<Rightarrow> row list \<Rightarrow> string \<Rightarrow> result \<Rightarrow> result" where
  "checkJSONFormat entity rows field st = forEach (checkJSONFormat_row entity field) 0 rows st"

subsection \<open>Co-run rules and the cycle check\<close>

datatype rule =
    CoRun "string list"
  | SlotRestriction string int
  | LoadLimit string int
  | PhaseWindow string "int list"
  | PatternMatch string string
  | PrecedenceOverride "string list" "string list"

fun coRun_tasks :: "rule \<Rightarrow> string list option" where
  "coRun_tasks (CoRun ts) = Some ts"
| "coRun_tasks _ = None"

type_synonym graph = "(string \<times> string list) list"

text \<open>Lines 133 to 142: every task of a co-run rule gets an entry, and every other task
  of the same rule as a neighbour, once.\<close>

definition add_neighbour :: "string \<Rightarrow> string \<Rightarrow> graph \<Rightarrow> graph" where
  "add_neighbour task otherTask g =
     (case map_of g task of
        None \<Rightarrow> g
      | Some ns \<Rightarrow> if task \<noteq> otherTask \<and> otherTask \<notin> set ns
                   then obj_put task (ns @ [otherTask]) g else g)"

definition add_task :: "string list \<Rightarrow> string \<Rightarrow> graph \<Rightarrow> graph" where
  "add_task tasks task g =
     fold (add_neighbour task) tasks
       (case map_of g task of None \<Rightarrow> obj_put task [] g | Some ns \<Rightarrow> g)"

definition build_graph :: "rule list \<Rightarrow> graph" where
  "build_graph rules =
     fold (\<lambda>tasks g. fold (add_task tasks) tasks g) (List.map_filter coRun_tasks rules) []"

record dfs =
  visited :: "string list"
  recStack :: "string list"

text \<open>Lines 147 to 160. The first argument bounds the depth of the recursion; \<open>None\<close> is a
  recursion deeper than the bound.\<close>

fun hasCycle :: "nat \<Rightarrow> graph \<Rightarrow> string \<Rightarrow> dfs \<Rightarrow> (bool \<times> dfs) option"
  and hasCycle_neighbours :: "nat \<Rightarrow> graph \<Rightarrow> string list \<Rightarrow> dfs \<Rightarrow> (bool \<times> dfs) option"
where
  "hasCycle 0 g task d = None"
| "hasCycle (Suc n) g task d =
     (if task \<in> set (recStack d) then Some (True, d)
      else if task \<in> set (visited d) then Some (False, d)
      else (case hasCycle_neighbours n g
                   (case map_of g task of None \<Rightarrow> [] | Some ns \<Rightarrow> ns)
                   (d\<lparr> visited := task # visited d, recStack := task # recStack d \<rparr>) of
              None \<Rightarrow> None
            | Some (found, d') \<Rightarrow>
                if found then Some (True, d')
                else Some (False, d'\<lparr> recStack := removeAll task (recStack d') \<rparr>)))"
| "hasCycle_neighbours n g [] d = Some (False, d)"
| "hasCycle_neighbours n g (neighbor # rest) d =
     (case hasCycle n g neighbor d of
        None \<Rightarrow> None
      | Some (found, d') \<Rightarrow>
          if found then Some (True, d') else hasCycle_neighbours n g rest d')"

text \<open>Lines 162 to 168: the first key of the graph that is unvisited and on a cycle.\<close>

fun find_cycle :: "nat \<Rightarrow> graph \<Rightarrow> string list \<Rightarrow> dfs \<Rightarrow> string option option" where
  "find_cycle n g [] d = Some None"
| "find_cycle n g (task # rest) d =
     (if task \<in> set (visited d) then find_cycle n g rest d
      else (case hasCycle n g task d of
              None \<Rightarrow> None
            | Some (found, d') \<Rightarrow> if found then Some (Some task) else find_cycle n g rest d'))"

definition checkCircularCoRuns :: "rule list \<Rightarrow> result \<Rightarrow> result option" where
  "checkCircularCoRuns rules st =
     (let g = build_graph rules
      in case find_cycle (length g + 2) g (map fst g) \<lparr> visited = [], recStack = [] \<rparr> of
           None \<Rightarrow> None
         | Some None \<Rightarrow> Some st
         | Some (Some task) \<Rightarrow>
             Some (push_suggestion ''Review co-run rules to eliminate circular dependencies''
                     (push_summary (''Circular co-run dependency detected involving task ''
                                      @ task) st)))"

subsection \<open>Capacity checks\<close>

text \<open>Lines 178 to 180 (and 195 to 197, 221 to 223): a JSON array when the trimmed text
  starts with a bracket, else the comma-separated pieces, each through
  \<^verbatim>\<open>parseInt(s.trim())\<close>.\<close>

definition parse_int_list :: "jsval \<Rightarrow> exn + jsval list" where
  "parse_int_list v =
     (if is_bracket_string v then JSON_parse_list v
      else (case js_split v of
              Inl e \<Rightarrow> Inl e
            | Inr parts \<Rightarrow> Inr (map (\<lambda>s. parseInt (trim s)) parts)))"

type_synonym phase_table = "(string \<times> jsval \<times> jsval) list"

definition add_total :: "jsval \<Rightarrow> jsval \<Rightarrow> phase_table \<Rightarrow> phase_table" where
  "add_total load phase tbl =
     (let k = js_ToString phase;
          (tot, usd) = (case map_of tbl k of None \<Rightarrow> (Num 0, Num 0) | Some tu \<Rightarrow> tu)
      in obj_put k (js_add tot load, usd) tbl)"

definition add_used :: "jsval \<Rightarrow> jsval \<Rightarrow> phase_table \<Rightarrow> phase_table" where
  "add_used dur phase tbl =
     (let k = js_ToString phase
      in case map_of tbl k of
           None \<Rightarrow> tbl
         | Some (tot, usd) \<Rightarrow> obj_put k (tot, js_add usd dur) tbl)"

definition worker_slots_row :: "row \<Rightarrow> phase_table \<Rightarrow> phase_table" where
  "worker_slots_row worker tbl =
     (case parse_int_list (getf worker ''AvailableSlots'') of
        Inl e \<Rightarrow> tbl
      | Inr slots \<Rightarrow>
          fold (add_total (js_or (getf worker ''MaxLoadPerPhase'') (Num 1))) slots tbl)"

definition task_phases_row :: "row \<Rightarrow> phase_table \<Rightarrow> phase_table" where
  "task_phases_row task tbl =
     (case parse_int_list (getf task ''PreferredPhases'') of
        Inl e \<Rightarrow> tbl
      | Inr phases \<Rightarrow> fold (add_used (js_or (getf task ''Duration'') (Num 1))) phases tbl)"

definition phaseSlots :: "row list \<Rightarrow> row list \<Rightarrow> phase_table" where
  "phaseSlots workers tasks = fold task_phases_row tasks (fold worker_slots_row workers [])"

definition report_phase :: "string \<times> jsval \<times> jsval \<Rightarrow> result \<Rightarrow> result" where
  "report_phase e st =
     (case e of (phase, tot, usd) \<Rightarrow>
        if js_gt usd tot then
          push_suggestion
            (''Consider reducing task durations or adding more workers for phase '' @ phase)
            (push_summary (''Phase '' @ phase @ '' is oversaturated: '' @ js_ToString usd
                             @ '' slots needed, '' @ js_ToString tot @ '' available'') st)
        else st)"

definition checkPhaseSlotSaturation :: "row list \<Rightarrow> row list \<Rightarrow> result \<Rightarrow> result" where
  "checkPhaseSlotSaturation workers tasks st = fold report_phase (phaseSlots workers tasks) st"

definition checkOverloadedWorkers_row :: "nat \<Rightarrow> row \<Rightarrow> result \<Rightarrow> result" where
  "checkOverloadedWorkers_row idx worker s =
     (case parse_int_list (getf worker ''AvailableSlots'') of
        Inl e \<Rightarrow> s
      | Inr availableSlots \<Rightarrow>
          if js_lt (Num (of_nat (length availableSlots)))
                   (js_or (getf worker ''MaxLoadPerPhase'') (Num 1))
          then flag Workers worker idx ''MaxLoadPerPhase''
                 (''Max load ('' @ js_ToString (getf worker ''MaxLoadPerPhase'')
                    @ '') exceeds available slots (''
                    @ dec_nat (length availableSlots) @ '')'')
                 (''workers: Row '' @ row_no idx @ '' worker is overloaded'') s
          else s)"

definition checkOverloadedWorkers :: "row list \<Rightarrow> result \<Rightarrow> result" where
  "checkOverloadedWorkers workers st = forEach checkOverloadedWorkers_row 0 workers st"

definition is_qualified :: "jsval list \<Rightarrow> row \<Rightarrow> bool" where
  "is_qualified skills worker =
     (case parse_list_trimmed (getf worker ''Skills'') of
        Inl e \<Rightarrow> False
      | Inr workerSkills \<Rightarrow> list_ex (\<lambda>skill. js_includes workerSkills skill) skills)"

definition checkMaxConcurrencyFeasibility_row ::
  "row list \<Rightarrow> nat \<Rightarrow> row \<Rightarrow> result \<Rightarrow> result" where
  "checkMaxConcurrencyFeasibility_row workers idx task s =
     (if \<not> truthy (getf task ''RequiredSkills'') then s
      else (case parse_list_trimmed (getf task ''RequiredSkills'') of
              Inl e \<Rightarrow> s
            | Inr skills \<Rightarrow>
                (let qualifiedWorkers = filter (is_qualified skills) workers
                 in if js_lt (Num (of_nat (length qualifiedWorkers)))
                             (js_or (getf task ''MaxConcurrent'') (Num 1))
                    then flag Tasks task idx ''MaxConcurrent''
                           (''Max concurrent ('' @ js_ToString (getf task ''MaxConcurrent'')
                              @ '') exceeds qualified workers (''
                              @ dec_nat (length qualifiedWorkers) @ '')'')
                           (''tasks: Row '' @ row_no idx @ '' max concurrency not feasible'') s
                    else s)))"

definition checkMaxConcurrencyFeasibility :: "row list \<Rightarrow> row list \<Rightarrow> result \<Rightarrow> result" where
  "checkMaxConcurrencyFeasibility workers tasks st =
     forEach (checkMaxConcurrencyFeasibility_row workers) 0 tasks st"

subsection \<open>Cross-entity checks\<close>

text \<open>Lines 300 to 305 (and 322 to 327, 335 to 340): as above but the comma-separated
  pieces are kept untrimmed, and a failure leaves the empty list.\<close>

definition parse_list_raw :: "jsval \<Rightarrow> jsval list" where
  "parse_list_raw v =
     (case (if is_bracket_string v then JSON_parse_list v
            else (case js_split v of Inl e \<Rightarrow> Inl e | Inr parts \<Rightarrow> Inr (map Str parts))) of
        Inl e \<Rightarrow> []
      | Inr xs \<Rightarrow> xs)"

text \<open>Lines 294 to 314. \<^verbatim>\<open>taskId.trim()\<close> is outside every \<^verbatim>\<open>try\<close>: on a truthy element
  that is not a string it throws out of \<^verbatim>\<open>validateAllData\<close>.\<close>

definition checkTaskReferences_item ::
  "jsval list \<Rightarrow> nat \<Rightarrow> row \<Rightarrow> nat \<Rightarrow> jsval \<Rightarrow> result \<Rightarrow> exn + result" where
  "checkTaskReferences_item taskIds idx client i taskId s =
     (if truthy taskId then
        (case js_trim taskId of
           Inl e \<Rightarrow> Inl e
         | Inr t \<Rightarrow>
             if \<not> js_includes taskIds (Str t) then
               Inr (flag Clients client idx ''RequestedTaskIDs''
                      (''Unknown task ID: '' @ js_ToString taskId)
                      (''clients: Row '' @ row_no idx @ '' requests unknown task ''
                         @ quoted (js_ToString taskId)) s)
             else Inr s)
      else Inr s)"

definition checkTaskReferences_row ::
  "jsval list \<Rightarrow> nat \<Rightarrow> row \<Rightarrow> result \<Rightarrow> exn + result" where
  "checkTaskReferences_row taskIds idx client s =
     (if truthy (getf client ''RequestedTaskIDs'') then
        forEachE (checkTaskReferences_item taskIds idx client) 0
          (parse_list_raw (getf client ''RequestedTaskIDs'')) s
      else Inr s)"

definition checkTaskReferences :: "row list \<Rightarrow> row list \<Rightarrow> result \<Rightarrow> exn + result" where
  "checkTaskReferences clients tasks st =
     forEachE (checkTaskReferences_row (map (\<lambda>t. getf t ''TaskID'') tasks)) 0 clients st"

text \<open>Lines 317 to 329: the skills of all workers, each element through
  \<^verbatim>\<open>skill.trim()\<close>, again outside every \<^verbatim>\<open>try\<close>.\<close>

definition allWorkerSkills :: "row list \<Rightarrow> exn + string list" where
  "allWorkerSkills workers =
     mapE js_trim
       (concat (map (\<lambda>w. if \<not> truthy (getf w ''Skills'') then []
                          else parse_list_raw (getf w ''Skills'')) workers))"

text \<open>Lines 330 to 350: the field error of a task grows by one clause for each skill
  that no worker has.\<close>

definition checkSkillCoverage_item ::
  "string list \<Rightarrow> nat \<Rightarrow> row \<Rightarrow> nat \<Rightarrow> jsval \<Rightarrow> result \<Rightarrow> exn + result" where
  "checkSkillCoverage_item known idx task i skill s =
     (if truthy skill then
        (case js_trim skill of
           Inl e \<Rightarrow> Inl e
         | Inr t \<Rightarrow>
             if t \<notin> set known then
               Inr (flag Tasks task idx ''RequiredSkills''
                      ((case get_field Tasks (row_key task idx) ''RequiredSkills'' s of
                          None \<Rightarrow> [] | Some old \<Rightarrow> old)
                         @ '' No worker with skill: '' @ js_ToString skill)
                      (''tasks: Row '' @ row_no idx @ '' requires skill ''
                         @ quoted (js_ToString skill) @ '' not found in any worker'') s)
             else Inr s)
      else Inr s)"

definition checkSkillCoverage_row ::
  "string list \<Rightarrow> nat \<Rightarrow> row \<Rightarrow> result \<Rightarrow> exn + result" where
  "checkSkillCoverage_row known idx task s =
     (if truthy (getf task ''RequiredSkills'') then
        forEachE (checkSkillCoverage_item known idx task) 0
          (parse_list_raw (getf task ''RequiredSkills'')) s
      else Inr s)"

definition checkSkillCoverage :: "row list \<Rightarrow> row list \<Rightarrow> result \<Rightarrow> exn + result" where
  "checkSkillCoverage workers tasks st =
     (case allWorkerSkills workers of
        Inl e \<Rightarrow> Inl e
      | Inr known \<Rightarrow> forEachE (checkSkillCoverage_row known) 0 tasks st)"

subsection \<open>The engine\<close>

datatype 'a outcome = Returns 'a | Throws exn | TooDeep

text \<open>Lines 270 to 356, in the order of the source. \<open>TooDeep\<close> stands for a recursion of
  \<^verbatim>\<open>hasCycle\<close> beyond its bound.\<close>

definition core_validations :: "row list \<Rightarrow> row list \<Rightarrow> row list \<Rightarrow> result \<Rightarrow> result" where
  "core_validations clients workers tasks =
     checkMaxConcurrencyFeasibility workers tasks
     \<circ> checkOutOfRange Tasks tasks ''MaxConcurrent'' 1 10
     \<circ> checkOutOfRange Tasks tasks ''Duration'' 1 100
     \<circ> checkMalformedLists Tasks tasks ''PreferredPhases'' True
     \<circ> checkMalformedLists Tasks tasks ''RequiredSkills'' False
     \<circ> checkDuplicateIds Tasks tasks ''TaskID''
     \<circ> checkMissingColumns Tasks tasks
     \<circ> checkOverloadedWorkers workers
     \<circ> checkOutOfRange Workers workers ''MaxLoadPerPhase'' 1 10
     \<circ> checkMalformedLists Workers workers ''AvailableSlots'' True
     \<circ> checkMalformedLists Workers workers ''Skills'' False
     \<circ> checkDuplicateIds Workers workers ''WorkerID''
     \<circ> checkMissingColumns Workers workers
     \<circ> checkJSONFormat Clients clients ''AttributesJSON''
     \<circ> checkMalformedLists Clients clients ''RequestedTaskIDs'' False
     \<circ> checkOutOfRange Clients clients ''PriorityLevel'' 1 5
     \<circ> checkDuplicateIds Clients clients ''ClientID''
     \<circ> checkMissingColumns Clients clients"

definition validateAllData ::
  "row list \<Rightarrow> row list \<Rightarrow> row list \<Rightarrow> rule list \<Rightarrow> result outcome" where
  "validateAllData clients workers tasks rules =
     (case checkTaskReferences clients tasks
             (core_validations clients workers tasks empty_result) of
        Inl e \<Rightarrow> Throws e
      | Inr s1 \<Rightarrow>
          (case checkSkillCoverage workers tasks s1 of
             Inl e \<Rightarrow> Throws e
           | Inr s2 \<Rightarrow>
               (case checkCircularCoRuns rules s2 of
                  None \<Rightarrow> TooDeep
                | Some s3 \<Rightarrow> Returns (checkPhaseSlotSaturation workers tasks s3))))"

subsection \<open>Capacity and demand of a phase\<close>









subsection \<open>Sample rows\<close>

definition sample_client :: row where
  "sample_client =
     [''id'' \<mapsto> Str ''C1'', ''ClientID'' \<mapsto> Str ''C1'', ''ClientName'' \<mapsto> Str ''Acme'',
      ''PriorityLevel'' \<mapsto> Num 3, ''RequestedTaskIDs'' \<mapsto> Str ''T1,T2'',
      ''GroupTag'' \<mapsto> Str ''G'', ''AttributesJSON'' \<mapsto> Str ''{}'']"

definition zero_load_worker :: row where
  "zero_load_worker = [''AvailableSlots'' \<mapsto> Str ''[]'', ''MaxLoadPerPhase'' \<mapsto> Num 0]"




section \<open>Properties\<close>

subsection \<open>Basic facts about the accumulator and the coercions\<close>

lemma get_field_flag:
  "get_field e (row_key row idx) f (flag e row idx f msg line st) = Some msg"
  by (simp add: flag_def push_summary_def set_field_def get_field_def)

lemma summary_flag: "summary (flag e row idx f msg line st) = summary st @ [line]"
  by (simp add: flag_def push_summary_def set_field_def ensure_row_def split: option.splits)

lemma js_lt_Num: "js_lt (Num a) (Num b) = (a < b)"
  by (simp add: js_lt_def)

lemma count_below_one: "(of_nat (length xs) < (1::rat)) = (xs = [])"
  using of_nat_less_iff [where ?'a = rat, of "length xs" 1] by simp

lemma dec_int_1_5: "dec_int 1 = ''1''" "dec_int 5 = ''5''"
  by code_simp+

subsection \<open>The recursion of \<^verbatim>\<open>hasCycle\<close> stays within its bound\<close>

text \<open>Every call of \<^verbatim>\<open>hasCycle\<close> that goes one level deeper first marks a key of the graph
  that was unvisited, and nothing is ever unmarked; so the number of unvisited keys, plus
  two, is depth enough. \<^verbatim>\<open>checkCircularCoRuns\<close> starts with the number of keys plus two:
  it always returns, and \<^verbatim>\<open>validateAllData\<close> is never \<open>TooDeep\<close>.\<close>

lemma visited_mono:
  "hasCycle n g t d = Some (b, d') \<Longrightarrow> set (visited d) \<subseteq> set (visited d')"
  "hasCycle_neighbours n g ns d = Some (b, d') \<Longrightarrow> set (visited d) \<subseteq> set (visited d')"
proof (induction n g t d and n g ns d arbitrary: b d' and b d'
       rule: hasCycle_hasCycle_neighbours.induct)
  case (1 g task d)
  then show ?case by simp
next
  case (2 n g task d)
  show ?case
  proof (cases "task \<in> set (recStack d) \<or> task \<in> set (visited d)")
    case True
    with "2.prems" show ?thesis by (auto split: if_splits)
  next
    case False
    let ?d1 = "d\<lparr>visited := task # visited d, recStack := task # recStack d\<rparr>"
    let ?ns = "case map_of g task of None \<Rightarrow> [] | Some ns \<Rightarrow> ns"
    from False "2.prems" obtain found d2 where
      r: "hasCycle_neighbours n g ?ns ?d1 = Some (found, d2)" and
      v: "visited d' = visited d2"
      by (auto split: option.splits if_splits)
    from False have "set (visited ?d1) \<subseteq> set (visited d2)"
      by (intro "2.IH" [OF _ _ r]) simp_all
    with v show ?thesis by auto
  qed
next
  case (3 n g d)
  then show ?case by simp
next
  case (4 n g neighbor rest d)
  from "4.prems" obtain found d1 where
    h: "hasCycle n g neighbor d = Some (found, d1)"
    by (auto split: option.splits)
  have 1: "set (visited d) \<subseteq> set (visited d1)"
    by (rule "4.IH"(1) [OF h])
  show ?case
  proof (cases found)
    case True
    with h "4.prems" 1 show ?thesis by simp
  next
    case False
    with h "4.prems" have r: "hasCycle_neighbours n g rest d1 = Some (b, d')" by simp
    have "set (visited d1) \<subseteq> set (visited d')"
      by (rule "4.IH"(2) [OF h refl False r])
    with 1 show ?thesis by blast
  qed
qed

definition unvisited :: "graph \<Rightarrow> dfs \<Rightarrow> nat" where
  "unvisited g d = card (set (map fst g) - set (visited d))"

lemma unvisited_mono:
  "set (visited d) \<subseteq> set (visited d') \<Longrightarrow> unvisited g d' \<le> unvisited g d"
  unfolding unvisited_def by (intro card_mono) auto

lemma unvisited_visit:
  assumes "task \<in> set (map fst g)" and "task \<notin> set (visited d)"
  shows "Suc (unvisited g (d\<lparr>visited := task # visited d, recStack := r\<rparr>)) = unvisited g d"
proof -
  let ?A = "set (map fst g) - set (visited d)"
  have eq: "set (map fst g) - set (visited (d\<lparr>visited := task # visited d, recStack := r\<rparr>))
              = ?A - {task}"
    by auto
  have fin: "finite ?A" by simp
  from assms have mem: "task \<in> ?A" by simp
  show ?thesis
    unfolding unvisited_def eq by (rule card_Suc_Diff1 [OF fin mem])
qed

lemma hasCycle_enough:
  "unvisited g d + 2 \<le> n \<Longrightarrow> hasCycle n g t d \<noteq> None"
  "unvisited g d + 2 \<le> n \<Longrightarrow> hasCycle_neighbours n g ns d \<noteq> None"
proof (induction n g t d and n g ns d rule: hasCycle_hasCycle_neighbours.induct)
  case (1 g task d)
  then show ?case by simp
next
  case (2 n g task d)
  show ?case
  proof (cases "task \<in> set (recStack d) \<or> task \<in> set (visited d)")
    case True
    then show ?thesis by auto
  next
    case False
    let ?d1 = "d\<lparr>visited := task # visited d, recStack := task # recStack d\<rparr>"
    let ?ns = "case map_of g task of None \<Rightarrow> [] | Some ns \<Rightarrow> ns"
    have "hasCycle_neighbours n g ?ns ?d1 \<noteq> None"
    proof (cases "map_of g task")
      case None
      then show ?thesis by simp
    next
      case (Some ns)
      then have "task \<in> set (map fst g)"
        by (metis map_of_eq_None_iff option.distinct(1) set_map)
      with False have "Suc (unvisited g ?d1) = unvisited g d"
        by (intro unvisited_visit) simp_all
      with "2.prems" have "unvisited g ?d1 + 2 \<le> n" by simp
      with False show ?thesis
        by (intro "2.IH") simp_all
    qed
    with False show ?thesis by (auto split: option.splits)
  qed
next
  case (3 n g d)
  then show ?case by simp
next
  case (4 n g neighbor rest d)
  from "4.IH"(1) [OF "4.prems"] obtain found d1 where
    h: "hasCycle n g neighbor d = Some (found, d1)"
    by (cases "hasCycle n g neighbor d") auto
  show ?case
  proof (cases found)
    case True
    with h show ?thesis by simp
  next
    case False
    from visited_mono(1) [OF h] have "unvisited g d1 \<le> unvisited g d"
      by (rule unvisited_mono)
    with "4.prems" have "unvisited g d1 + 2 \<le> n" by simp
    from "4.IH"(2) [OF h refl False this] h False show ?thesis by simp
  qed
qed

lemma find_cycle_enough:
  "unvisited g d + 2 \<le> n \<Longrightarrow> find_cycle n g ks d \<noteq> None"
proof (induction ks arbitrary: d)
  case Nil
  show ?case by simp
next
  case (Cons task rest)
  show ?case
  proof (cases "task \<in> set (visited d)")
    case True
    with Cons show ?thesis by simp
  next
    case False
    from hasCycle_enough(1) [OF Cons.prems, of task] obtain found d1 where
      h: "hasCycle n g task d = Some (found, d1)"
      by (cases "hasCycle n g task d") auto
    from visited_mono(1) [OF h] have "unvisited g d1 \<le> unvisited g d"
      by (rule unvisited_mono)
    with Cons.prems have "unvisited g d1 + 2 \<le> n" by simp
    from Cons.IH [OF this] h False show ?thesis by simp
  qed
qed

lemma checkCircularCoRuns_returns: "checkCircularCoRuns rules st \<noteq> None"
proof -
  let ?g = "build_graph rules"
  have "unvisited ?g \<lparr>visited = [], recStack = []\<rparr> \<le> length ?g"
    unfolding unvisited_def using card_length [of "map fst ?g"] by simp
  then have "find_cycle (length ?g + 2) ?g (map fst ?g) \<lparr>visited = [], recStack = []\<rparr> \<noteq> None"
    by (intro find_cycle_enough) simp
  then show ?thesis
    by (auto simp: checkCircularCoRuns_def Let_def split: option.splits)
qed

lemma validateAllData_not_TooDeep: "validateAllData clients workers tasks rules \<noteq> TooDeep"
  by (simp add: validateAllData_def checkCircularCoRuns_returns
           split: sum.splits option.splits)

subsection \<open>A bracket text that parses is an array\<close>

text \<open>While the automaton runs on a text whose first token is \<^verbatim>\<open>[\<close>, the bottom of its stack
  is that array; the value it finishes with is therefore an array. So under the guard
  \<^verbatim>\<open>value.trim().startsWith('[')\<close> the last case of \<open>JSON_parse_list\<close> never occurs: the
  only failure is a SyntaxError.\<close>

definition array_below :: "frame list \<Rightarrow> bool" where
  "array_below st = (st \<noteq> [] \<and> (\<exists>xs. last st = FArr xs))"

definition bottom_is_array :: "frame list \<times> mode \<Rightarrow> bool" where
  "bottom_is_array c =
     (case snd c of
        Finished v \<Rightarrow> fst c = [] \<and> (\<exists>xs. v = Arr xs)
      | _ \<Rightarrow> array_below (fst c))"

lemma array_below_push: "array_below st \<Longrightarrow> array_below (f # st)"
  by (simp add: array_below_def)

lemma array_below_top: "array_below (f # st) \<Longrightarrow> array_below (g # st) \<or> st = []"
  by (auto simp: array_below_def)

lemma complete_keeps_array:
  assumes "complete v st = Some c" and "array_below st"
  shows "bottom_is_array c"
proof (cases st)
  case Nil
  with assms(2) show ?thesis by (simp add: array_below_def)
next
  case (Cons f fs)
  show ?thesis
  proof (cases f)
    case (FArr xs)
    with assms Cons show ?thesis
      by (auto simp: bottom_is_array_def array_below_def)
  next
    case (FObj kvs)
    with assms Cons show ?thesis by simp
  next
    case (FKey k)
    show ?thesis
    proof (cases fs)
      case Nil
      with assms Cons FKey show ?thesis by simp
    next
      case (Cons f' fs')
      with assms \<open>st = f # fs\<close> FKey show ?thesis
        by (cases f') (auto simp: bottom_is_array_def array_below_def)
    qed
  qed
qed

lemma close_array_keeps_array:
  assumes "complete (Arr xs) st = Some c" and "array_below (FArr xs # st)"
  shows "bottom_is_array c"
proof (cases st)
  case Nil
  with assms(1) show ?thesis by (auto simp: bottom_is_array_def)
next
  case (Cons f fs)
  with assms(2) have "array_below st" by (simp add: array_below_def)
  with assms(1) show ?thesis by (rule complete_keeps_array)
qed

lemma close_object_keeps_array:
  assumes "complete (Obj kvs) st = Some c" and "array_below (FObj kvs # st)"
  shows "bottom_is_array c"
proof (cases st)
  case Nil
  with assms(2) show ?thesis by (simp add: array_below_def)
next
  case (Cons f fs)
  with assms(2) have "array_below st" by (simp add: array_below_def)
  with assms(1) show ?thesis by (rule complete_keeps_array)
qed

lemma open_value_keeps_array:
  assumes "open_value t st = Some c" and "array_below st"
  shows "bottom_is_array c"
proof (cases t)
  case (Scalar v)
  with assms(1) have "complete v st = Some c" by simp
  then show ?thesis using assms(2) by (rule complete_keeps_array)
next
  case LBrack
  with assms show ?thesis by (auto simp: bottom_is_array_def array_below_def)
next
  case LBrace
  with assms show ?thesis by (auto simp: bottom_is_array_def array_below_def)
qed (use assms in simp_all)

lemma array_below_cases:
  assumes "array_below st"
  obtains f st' where "st = f # st'"
  using assms by (cases st) (simp_all add: array_below_def)

lemma pda_step_keeps_array:
  assumes "bottom_is_array (st, m)" and "pda_step t (st, m) = Some c"
  shows "bottom_is_array c"
proof (cases m)
  case (Finished v)
  with assms(2) show ?thesis by simp
next
  case WantValue
  with assms have "open_value t st = Some c" and "array_below st"
    by (simp_all add: bottom_is_array_def)
  then show ?thesis by (rule open_value_keeps_array)
next
  case WantValueOrClose
  with assms(1) have ab: "array_below st" by (simp add: bottom_is_array_def)
  then obtain f st' where st: "st = f # st'" by (rule array_below_cases)
  show ?thesis
  proof (cases "t = RBrack \<and> (\<exists>xs. f = FArr xs)")
    case True
    then obtain xs where "t = RBrack" and f: "f = FArr xs" by blast
    with assms(2) WantValueOrClose st have "complete (Arr xs) st' = Some c" by simp
    moreover from ab st f have "array_below (FArr xs # st')" by simp
    ultimately show ?thesis by (rule close_array_keeps_array)
  next
    case False
    with assms(2) WantValueOrClose st have "open_value t st = Some c"
      by (cases t; cases f) simp_all
    then show ?thesis using ab by (rule open_value_keeps_array)
  qed
next
  case WantKeyOrClose
  with assms(1) have ab: "array_below st" by (simp add: bottom_is_array_def)
  then obtain f st' where st: "st = f # st'" by (rule array_below_cases)
  show ?thesis
  proof (cases t)
    case RBrace
    with assms(2) WantKeyOrClose st have "\<exists>kvs. f = FObj kvs \<and> complete (Obj kvs) st' = Some c"
      by (cases f) auto
    then obtain kvs where f: "f = FObj kvs"
      and co: "complete (Obj kvs) st' = Some c" by blast
    from ab st f have "array_below (FObj kvs # st')" by simp
    with co show ?thesis by (rule close_object_keeps_array)
  next
    case (Scalar v)
    with assms(2) WantKeyOrClose st have "\<exists>k. c = (FKey k # st, WantColon)"
      by (cases v; cases f) auto
    then obtain k where "c = (FKey k # st, WantColon)" ..
    with ab show ?thesis by (simp add: bottom_is_array_def array_below_push)
  qed (use assms(2) WantKeyOrClose st in \<open>(cases f; simp)+\<close>)
next
  case WantKey
  with assms(1) have ab: "array_below st" by (simp add: bottom_is_array_def)
  show ?thesis
  proof (cases t)
    case (Scalar v)
    with assms(2) WantKey have "\<exists>k. c = (FKey k # st, WantColon)"
      by (cases v) auto
    then obtain k where "c = (FKey k # st, WantColon)" ..
    with ab show ?thesis by (simp add: bottom_is_array_def array_below_push)
  qed (use assms(2) WantKey in simp_all)
next
  case WantColon
  with assms(1) have ab: "array_below st" by (simp add: bottom_is_array_def)
  from assms(2) WantColon have "c = (st, WantValue)"
    by (cases t) simp_all
  with ab show ?thesis by (simp add: bottom_is_array_def)
next
  case WantCommaOrClose
  with assms(1) have ab: "array_below st" by (simp add: bottom_is_array_def)
  then obtain f st' where st: "st = f # st'" by (rule array_below_cases)
  show ?thesis
  proof (cases t)
    case Comma
    with assms(2) WantCommaOrClose st have "c = (st, WantValue) \<or> c = (st, WantKey)"
      by (cases f) auto
    with ab show ?thesis by (auto simp: bottom_is_array_def)
  next
    case RBrack
    with assms(2) WantCommaOrClose st have "\<exists>xs. f = FArr xs \<and> complete (Arr xs) st' = Some c"
      by (cases f) auto
    then obtain xs where f: "f = FArr xs"
      and co: "complete (Arr xs) st' = Some c" by blast
    from ab st f have "array_below (FArr xs # st')" by simp
    with co show ?thesis by (rule close_array_keeps_array)
  next
    case RBrace
    with assms(2) WantCommaOrClose st have "\<exists>kvs. f = FObj kvs \<and> complete (Obj kvs) st' = Some c"
      by (cases f) auto
    then obtain kvs where f: "f = FObj kvs"
      and co: "complete (Obj kvs) st' = Some c" by blast
    from ab st f have "array_below (FObj kvs # st')" by simp
    with co show ?thesis by (rule close_object_keeps_array)
  qed (use assms(2) WantCommaOrClose st in \<open>(cases f; simp)+\<close>)
qed

lemma pda_run_keeps_array:
  "bottom_is_array c \<Longrightarrow> pda_run ts c = Some c' \<Longrightarrow> bottom_is_array c'"
proof (induction ts arbitrary: c)
  case Nil
  then show ?case by simp
next
  case (Cons t ts)
  from Cons.prems(2) obtain c1 where 1: "pda_step t c = Some c1" and 2: "pda_run ts c1 = Some c'"
    by (auto split: option.splits)
  obtain st m where c: "c = (st, m)" by (cases c)
  from Cons.prems(1) 1 have "bottom_is_array c1"
    unfolding c by (rule pda_step_keeps_array)
  from Cons.IH [OF this 2] show ?case .
qed

lemma lex_not_json_ws:
  assumes "is_ws c" and "\<not> json_ws c"
  shows "lex (c # cs) = None"
proof -
  from assms have n: "of_char c = (11::nat) \<or> of_char c = (12::nat)"
    by (auto simp: is_ws_def json_ws_def)
  then have 1: "c \<noteq> CHR ''[''" "c \<noteq> CHR '']''" "c \<noteq> CHR ''{''" "c \<noteq> CHR ''}''"
    by auto
  from n have 2: "c \<noteq> CHR '',''" "c \<noteq> CHR '':''" "c \<noteq> CHR 0x22" "c \<noteq> CHR ''-''"
    by auto
  from n have 3: "c \<noteq> CHR ''t''" "c \<noteq> CHR ''f''" "c \<noteq> CHR ''n''" "\<not> is_digit c"
    by (auto simp: is_digit_def)
  have 4: "take 4 (c # cs) \<noteq> ''true''" "take 5 (c # cs) \<noteq> ''false''"
    "take 4 (c # cs) \<noteq> ''null''"
    using 3 by (simp_all add: take_Cons')
  show ?thesis
    using assms(2) 1 2 3(4) 4 by (simp only: lex.simps if_False simp_thms)
qed

lemma lex_starts_with_bracket:
  "startsWith (dropWhile is_ws s) ''['' \<Longrightarrow> lex s = Some ts \<Longrightarrow> \<exists>ts'. ts = LBrack # ts'"
proof (induction s)
  case Nil
  then show ?case by (simp add: startsWith_def)
next
  case (Cons c cs)
  show ?case
  proof (cases "is_ws c")
    case True
    show ?thesis
    proof (cases "json_ws c")
      case True
      with Cons.prems \<open>is_ws c\<close> have "startsWith (dropWhile is_ws cs) ''[''" and "lex cs = Some ts"
        by simp_all
      then show ?thesis by (rule Cons.IH)
    next
      case False
      with True have "lex (c # cs) = None" by (rule lex_not_json_ws)
      with Cons.prems(2) show ?thesis by simp
    qed
  next
    case False
    with Cons.prems(1) have c: "c = CHR ''[''" by (simp add: startsWith_def)
    have "\<not> json_ws (CHR ''['')" by (simp add: json_ws_def)
    with Cons.prems(2) c show ?thesis by auto
  qed
qed

lemma trim_prefix:
  assumes "startsWith (trim s) ''[''"
  shows "startsWith (dropWhile is_ws s) ''[''"
proof -
  define t where "t = dropWhile is_ws s"
  have "rev (dropWhile is_ws (rev t)) @ rev (takeWhile is_ws (rev t))
          = rev (takeWhile is_ws (rev t) @ dropWhile is_ws (rev t))"
    by (simp only: rev_append)
  also have "\<dots> = t"
    by (simp only: takeWhile_dropWhile_id rev_rev_ident)
  finally have t: "trim s @ rev (takeWhile is_ws (rev t)) = t"
    by (simp only: trim_def t_def)
  from assms obtain r where "trim s = CHR ''['' # r"
    by (cases "trim s") (simp_all add: startsWith_def)
  with t have "\<exists>q. t = CHR ''['' # q" by (metis append_Cons)
  then have "startsWith t ''[''" by (auto simp: startsWith_def)
  then show ?thesis by (simp only: t_def)
qed

lemma JSON_parse_bracket_is_array:
  assumes "startsWith (trim s) ''[''" and "JSON_parse s = Inr v"
  shows "\<exists>xs. v = Arr xs"
proof -
  from assms(2) obtain ts where l: "lex s = Some ts"
    and r: "pda_run ts ([], WantValue) = Some ([], Finished v)"
    by (auto simp: JSON_parse_def split: option.splits list.splits mode.splits)
  from trim_prefix [OF assms(1)] l obtain ts' where ts: "ts = LBrack # ts'"
    using lex_starts_with_bracket by blast
  with r have r': "pda_run ts' ([FArr []], WantValueOrClose) = Some ([], Finished v)" by simp
  have "bottom_is_array ([FArr []], WantValueOrClose)"
    by (simp add: bottom_is_array_def array_below_def)
  from pda_run_keeps_array [OF this r'] show ?thesis
    by (simp add: bottom_is_array_def)
qed

lemma JSON_parse_error: "JSON_parse s = Inl e \<Longrightarrow> e = SyntaxError"
  by (auto simp: JSON_parse_def split: option.splits list.splits mode.splits prod.splits)

lemma JSON_parse_list_of_bracket:
  assumes "is_bracket_string v"
  shows "JSON_parse_list v \<noteq> Inl TypeError"
proof -
  from assms obtain s where v: "v = Str s" and b: "startsWith (trim s) ''[''"
    by (cases v) (simp_all add: is_bracket_string_def)
  show ?thesis
  proof (cases "JSON_parse s")
    case (Inl e)
    then have "e = SyntaxError" by (rule JSON_parse_error)
    with Inl v show ?thesis by (simp add: JSON_parse_list_def)
  next
    case (Inr w)
    with b obtain xs where "w = Arr xs" using JSON_parse_bracket_is_array by blast
    with Inr v show ?thesis by (simp add: JSON_parse_list_def)
  qed
qed

subsection \<open>C1: cycle check on co-run rules\<close>

text \<open>
  C1. The three co-run rules \<open>{T1,T2}\<close>, \<open>{T2,T3}\<close>, \<open>{T3,T1}\<close> make the cycle check append
  its summary line and its suggestion; the claim adds that the two disjoint rules
  \<open>{T1,T2}\<close> and \<open>{T3,T4}\<close> append nothing. Evaluated on the code, both rule lists are
  reported: the edges of a rule go both ways, and \<^verbatim>\<open>hasCycle\<close> takes the edge back to the
  task it came from for a cycle, so the pair \<open>T1, T2\<close> alone is reported as circular.
\<close>

theorem C1_disjoint_pairs_reported:
  "map_option summary
     (checkCircularCoRuns [CoRun [''T1'', ''T2''], CoRun [''T2'', ''T3''], CoRun [''T3'', ''T1'']]
        empty_result)
     = Some [''Circular co-run dependency detected involving task T1'']
   \<and> map_option suggestions
     (checkCircularCoRuns [CoRun [''T1'', ''T2''], CoRun [''T2'', ''T3''], CoRun [''T3'', ''T1'']]
        empty_result)
     = Some [''Review co-run rules to eliminate circular dependencies'']
   \<and> map_option summary
     (checkCircularCoRuns [CoRun [''T1'', ''T2''], CoRun [''T3'', ''T4'']] empty_result)
     = Some [''Circular co-run dependency detected involving task T1'']
   \<and> map_option suggestions
     (checkCircularCoRuns [CoRun [''T1'', ''T2''], CoRun [''T3'', ''T4'']] empty_result)
     = Some [''Review co-run rules to eliminate circular dependencies'']"
  by code_simp

subsection \<open>C2: phase saturation\<close>








































text \<open>With a text in place of a number, \<^verbatim>\<open>+=\<close> concatenates: a \<open>Duration\<close> read from
  a CSV file as the text \<open>7\<close> turns the counter \<open>0\<close> into the text \<open>07\<close>.\<close>

lemma text_duration_concatenates: "js_add (Num 0) (Str ''7'') = Str ''07''"
  by code_simp

subsection \<open>C3: unknown task references of one client\<close>

text \<open>
  C3. Each requested task ID that no task carries gets its own summary line, and the
  claim adds that the field error of the client row accumulates the messages of all of
  them. Evaluated on a client that requests the unknown \<open>T1\<close> and \<open>T2\<close>: two summary lines,
  but the field error holds the message for \<open>T2\<close> only, the assignment of line 309
  overwriting where the skill check of line 345 appends.
\<close>

theorem C3_field_error_keeps_last_only:
  "(case validateAllData [sample_client] [] [] [] of
      Returns r \<Rightarrow>
        summary r = [''clients: Row 1 requests unknown task '' @ quoted ''T1'',
                     ''clients: Row 1 requests unknown task '' @ quoted ''T2'']
        \<and> get_field Clients ''C1'' ''RequestedTaskIDs'' r = Some ''Unknown task ID: T2''
    | _ \<Rightarrow> False)"
  by code_simp

subsection \<open>C4: no exception on well-formed rows\<close>

text \<open>
  C4. On rows that map field names to strings or numbers the engine is claimed never to
  throw. Evaluated on one client whose \<open>RequestedTaskIDs\<close> is the text \<open>[1]\<close>: the list
  check accepts the JSON array, and the reference check then calls \<^verbatim>\<open>trim\<close> on the number
  \<open>1\<close> outside any \<^verbatim>\<open>try\<close>, so \<^verbatim>\<open>validateAllData\<close> throws a TypeError and returns no
  result.
\<close>

theorem C4_json_number_element_throws:
  "(case validateAllData [sample_client(''RequestedTaskIDs'' \<mapsto> Str ''[1]'')] [] [] [] of
      Throws e \<Rightarrow> e = TypeError
    | _ \<Rightarrow> False)"
  by code_simp

subsection \<open>C5: every field error comes with a summary line\<close>

text \<open>The relation between the accumulator before and after a step: a summary that was
  not empty stays so, and the error maps change only if the summary is not empty
  afterwards.\<close>

definition covered :: "result \<Rightarrow> result \<Rightarrow> bool" where
  "covered s s' =
     ((summary s \<noteq> [] \<longrightarrow> summary s' \<noteq> []) \<and> (errors s' = errors s \<or> summary s' \<noteq> []))"

lemma covered_refl: "covered s s"
  by (simp add: covered_def)

lemma covered_trans [trans]: "covered s s' \<Longrightarrow> covered s' s'' \<Longrightarrow> covered s s''"
  by (auto simp: covered_def)

lemma covered_flag: "covered s (flag e row idx f msg line s)"
  by (simp add: covered_def summary_flag)

lemma covered_push_summary: "covered s (push_summary m s)"
  by (simp add: covered_def push_summary_def)

lemma covered_push_suggestion: "covered s (push_suggestion m s)"
  by (simp add: covered_def push_suggestion_def)

lemma covered_comp:
  assumes "\<And>s. covered s (g s)" and "\<And>s. covered s (f s)"
  shows "covered s ((f \<circ> g) s)"
  using assms by (auto intro: covered_trans)

lemma covered_forEach:
  assumes "\<And>i x s. covered s (f i x s)"
  shows "covered s (forEach f i xs s)"
proof (induction xs arbitrary: i s)
  case Nil
  show ?case by (simp add: covered_refl)
next
  case (Cons x xs)
  have "covered s (f i x s)" by (rule assms)
  moreover have "covered (f i x s) (forEach f (Suc i) xs (f i x s))" by (rule Cons.IH)
  ultimately show ?case by (auto intro: covered_trans)
qed

lemma covered_fold:
  assumes "\<And>x s. covered s (f x s)"
  shows "covered s (fold f xs s)"
proof (induction xs arbitrary: s)
  case Nil
  show ?case by (simp add: covered_refl)
next
  case (Cons x xs)
  have "covered s (f x s)" by (rule assms)
  moreover have "covered (f x s) (fold f xs (f x s))" by (rule Cons.IH)
  ultimately show ?case by (auto intro: covered_trans)
qed

lemma covered_forEachE:
  assumes "\<And>i x s s'. f i x s = Inr s' \<Longrightarrow> covered s s'"
  shows "forEachE f i xs s = Inr s' \<Longrightarrow> covered s s'"
proof (induction xs arbitrary: i s)
  case Nil
  then show ?case by (simp add: covered_refl)
next
  case (Cons x xs)
  from Cons.prems obtain s1 where 1: "f i x s = Inr s1" and 2: "forEachE f (Suc i) xs s1 = Inr s'"
    by (auto split: sum.splits)
  from assms [OF 1] Cons.IH [OF 2] show ?case by (rule covered_trans)
qed

lemma summary_set_field: "summary (set_field e k f m s) = summary s"
  by (simp add: set_field_def)

lemma summary_ensure_row: "summary (ensure_row e k s) = summary s"
  by (simp add: ensure_row_def split: option.splits)

lemma summary_fold_const:
  assumes "\<And>x s. summary (f x s) = summary s"
  shows "summary (fold f xs s) = summary s"
  by (induction xs arbitrary: s) (simp_all add: assms)

lemma summary_forEach_const:
  assumes "\<And>i x s. summary (f i x s) = summary s"
  shows "summary (forEach f i xs s) = summary s"
  by (induction xs arbitrary: i s) (simp_all add: assms)

lemma covered_nonempty: "summary s' \<noteq> [] \<Longrightarrow> covered s s'"
  by (simp add: covered_def)

lemma summary_mark_missing: "summary (mark_missing entity missing idx row s) = summary s"
  unfolding mark_missing_def
  by (simp add: summary_fold_const summary_set_field summary_ensure_row)

lemma covered_checkMissingColumns: "covered s (checkMissingColumns entity rows s)"
proof (cases rows)
  case Nil
  then show ?thesis by (simp add: checkMissingColumns_def covered_refl)
next
  case (Cons row0 rest)
  let ?missing = "filter (\<lambda>col. row0 col = None) (requiredColumns entity)"
  show ?thesis
  proof (cases "?missing = []")
    case True
    with Cons show ?thesis by (simp add: checkMissingColumns_def covered_refl)
  next
    case False
    have "summary (forEach (mark_missing entity ?missing) 0 rows (push_summary m s)) \<noteq> []" for m
      by (simp add: summary_forEach_const summary_mark_missing push_summary_def)
    with False Cons show ?thesis
      by (simp add: checkMissingColumns_def Let_def covered_nonempty)
  qed
qed

lemma covered_mark_duplicate: "covered s (mark_duplicate entity rows idField e s)"
proof (cases e)
  case (Pair v indices)
  have "summary (fold (\<lambda>idx s'. set_field entity (row_key (rows ! idx) idx) idField m
                                 (ensure_row entity (row_key (rows ! idx) idx) s'))
                   indices (push_summary l s)) \<noteq> []" for m l
    by (simp add: summary_fold_const summary_set_field summary_ensure_row push_summary_def)
  then show ?thesis
    by (simp add: mark_duplicate_def Pair covered_nonempty covered_refl)
qed

lemma covered_checkDuplicateIds: "covered s (checkDuplicateIds entity rows idField s)"
  unfolding checkDuplicateIds_def
  by (rule covered_fold) (rule covered_mark_duplicate)

lemma covered_checkMalformedLists:
  "covered s (checkMalformedLists entity rows field numeric s)"
  unfolding checkMalformedLists_def
  by (rule covered_forEach)
     (auto simp: checkMalformedLists_row_def Let_def covered_flag covered_refl split: sum.splits)

lemma covered_checkOutOfRange: "covered s (checkOutOfRange entity rows field lo hi s)"
  unfolding checkOutOfRange_def
  by (rule covered_forEach)
     (auto simp: checkOutOfRange_row_def Let_def covered_flag covered_refl)

lemma covered_checkJSONFormat: "covered s (checkJSONFormat entity rows field s)"
  unfolding checkJSONFormat_def
  by (rule covered_forEach)
     (auto simp: checkJSONFormat_row_def Let_def covered_flag covered_refl split: sum.splits)

lemma covered_checkOverloadedWorkers: "covered s (checkOverloadedWorkers workers s)"
  unfolding checkOverloadedWorkers_def
  by (rule covered_forEach)
     (auto simp: checkOverloadedWorkers_row_def covered_flag covered_refl split: sum.splits)

lemma covered_checkMaxConcurrencyFeasibility:
  "covered s (checkMaxConcurrencyFeasibility workers tasks s)"
  unfolding checkMaxConcurrencyFeasibility_def
  by (rule covered_forEach)
     (auto simp: checkMaxConcurrencyFeasibility_row_def Let_def covered_flag covered_refl
           split: sum.splits)

lemma covered_core_validations: "covered s (core_validations clients workers tasks s)"
  unfolding core_validations_def
  by (intro covered_comp covered_checkMissingColumns covered_checkDuplicateIds
            covered_checkMalformedLists covered_checkOutOfRange covered_checkJSONFormat
            covered_checkOverloadedWorkers covered_checkMaxConcurrencyFeasibility)

lemma covered_checkTaskReferences:
  "checkTaskReferences clients tasks s = Inr s' \<Longrightarrow> covered s s'"
  unfolding checkTaskReferences_def
proof (erule covered_forEachE [rotated])
  fix i x s s'
  assume "checkTaskReferences_row (map (\<lambda>t. getf t ''TaskID'') tasks) i x s = Inr s'"
  then show "covered s s'"
    unfolding checkTaskReferences_row_def
    by (auto split: if_splits sum.splits
             simp: checkTaskReferences_item_def covered_flag covered_refl
             elim!: covered_forEachE [rotated])
qed

lemma covered_checkSkillCoverage:
  "checkSkillCoverage workers tasks s = Inr s' \<Longrightarrow> covered s s'"
proof -
  assume a: "checkSkillCoverage workers tasks s = Inr s'"
  then obtain known where
    "forEachE (checkSkillCoverage_row known) 0 tasks s = Inr s'"
    by (auto simp: checkSkillCoverage_def split: sum.splits)
  then show ?thesis
  proof (rule covered_forEachE [rotated])
    fix i x s s'
    assume "checkSkillCoverage_row known i x s = Inr s'"
    then show "covered s s'"
      unfolding checkSkillCoverage_row_def
      by (auto split: if_splits sum.splits
               simp: checkSkillCoverage_item_def covered_flag covered_refl
               elim!: covered_forEachE [rotated])
  qed
qed

lemma covered_checkCircularCoRuns:
  "checkCircularCoRuns rules s = Some s' \<Longrightarrow> covered s s'"
  by (auto simp: checkCircularCoRuns_def Let_def covered_def push_summary_def push_suggestion_def
           split: option.splits)

lemma covered_report_phase: "covered s (report_phase e s)"
  by (cases e) (simp add: report_phase_def covered_def push_summary_def push_suggestion_def)

lemma covered_checkPhaseSlotSaturation: "covered s (checkPhaseSlotSaturation workers tasks s)"
  unfolding checkPhaseSlotSaturation_def
  by (rule covered_fold) (rule covered_report_phase)

lemma covered_validateAllData:
  assumes "validateAllData clients workers tasks rules = Returns res"
  shows "covered empty_result res"
proof -
  let ?s0 = "core_validations clients workers tasks empty_result"
  from assms obtain s1 s2 s3 where
    1: "checkTaskReferences clients tasks ?s0 = Inr s1" and
    2: "checkSkillCoverage workers tasks s1 = Inr s2" and
    3: "checkCircularCoRuns rules s2 = Some s3" and
    4: "res = checkPhaseSlotSaturation workers tasks s3"
    by (auto simp: validateAllData_def split: sum.splits option.splits)
  have "covered empty_result ?s0" by (rule covered_core_validations)
  also have "covered ?s0 s1" by (rule covered_checkTaskReferences [OF 1])
  also have "covered s1 s2" by (rule covered_checkSkillCoverage [OF 2])
  also have "covered s2 s3" by (rule covered_checkCircularCoRuns [OF 3])
  also have "covered s3 res" unfolding 4 by (rule covered_checkPhaseSlotSaturation)
  finally show ?thesis .
qed

text \<open>
  C5. Whenever the engine returns a result that has an entry \<open>errors[entity][rowId][field]\<close>,
  its summary is not empty: at least one message was appended in the same run.
\<close>

theorem C5_errors_have_summary:
  assumes "validateAllData clients workers tasks rules = Returns res"
    and "get_field entity rowId field res = Some msg"
  shows "summary res \<noteq> []"
proof -
  from assms(2) have "errors res \<noteq> errors empty_result"
    by (auto simp: get_field_def empty_result_def fun_eq_iff split: option.splits)
  with covered_validateAllData [OF assms(1)] show ?thesis
    by (simp add: covered_def)
qed

theorem C5_errors_have_summary_witness:
  "\<exists>res. validateAllData [sample_client] [] [] [] = Returns res
         \<and> get_field Clients ''C1'' ''RequestedTaskIDs'' res = Some ''Unknown task ID: T2''
         \<and> summary res \<noteq> []"
proof -
  have "(case validateAllData [sample_client] [] [] [] of
           Returns r \<Rightarrow> get_field Clients ''C1'' ''RequestedTaskIDs'' r = Some ''Unknown task ID: T2''
         | _ \<Rightarrow> False)"
    by code_simp
  then obtain res where r: "validateAllData [sample_client] [] [] [] = Returns res"
    and g: "get_field Clients ''C1'' ''RequestedTaskIDs'' res = Some ''Unknown task ID: T2''"
    by (auto split: outcome.splits)
  from C5_errors_have_summary [OF r g] r g show ?thesis by blast
qed

subsection \<open>C6: determinism\<close>



subsection \<open>C7: the two encodings of a list\<close>

text \<open>
  C7. The comma-separated text \<open>a, b, c\<close> and the JSON array literal of the strings
  \<open>a\<close>, \<open>b\<close>, \<open>c\<close> normalise to the same sequence of three strings, and the list check
  leaves the same accumulator for a row with either encoding, on any field other than
  the row key \<open>id\<close> itself, numeric or not.
\<close>

theorem C7_list_encodings_agree:
  "parse_list_trimmed (Str ''a, b, c'') = Inr [Str ''a'', Str ''b'', Str ''c'']
   \<and> parse_list_trimmed (Str ''[\"a\",\"b\",\"c\"]'') = Inr [Str ''a'', Str ''b'', Str ''c'']
   \<and> (field \<noteq> ''id'' \<longrightarrow>
        checkMalformedLists_row entity field numeric idx (row(field \<mapsto> Str ''a, b, c'')) st
        = checkMalformedLists_row entity field numeric idx
            (row(field \<mapsto> Str ''[\"a\",\"b\",\"c\"]'')) st)"
proof -
  have a: "parse_list_trimmed (Str ''a, b, c'') = Inr [Str ''a'', Str ''b'', Str ''c'']"
    by code_simp
  have b: "parse_list_trimmed (Str ''[\"a\",\"b\",\"c\"]'') = Inr [Str ''a'', Str ''b'', Str ''c'']"
    by code_simp
  show ?thesis
    by (simp add: a b checkMalformedLists_row_def Let_def flag_def row_key_def getf_def)
qed

theorem C7_list_encodings_agree_witness:
  "checkMalformedLists_row Workers ''AvailableSlots'' True 0
       [''AvailableSlots'' \<mapsto> Str ''a, b, c''] empty_result
   = checkMalformedLists_row Workers ''AvailableSlots'' True 0
       [''AvailableSlots'' \<mapsto> Str ''[\"a\",\"b\",\"c\"]''] empty_result"
  using C7_list_encodings_agree [of "''AvailableSlots''" Workers True 0 Map.empty empty_result]
  by simp

subsection \<open>C8: the range of a client's priority level\<close>

text \<open>
  C8. For the range check of \<open>PriorityLevel\<close> in \<open>[1, 5]\<close> on a client row: a value that is
  \<^verbatim>\<open>undefined\<close>, \<^verbatim>\<open>null\<close> or the empty string leaves the accumulator as it is; any other
  value that coerces to \<open>0\<close> or \<open>6\<close> sets the field error and appends the summary line; a
  value that coerces to \<open>1\<close> or \<open>5\<close> leaves the accumulator as it is.
\<close>

theorem C8_priority_range:
  "(getf row ''PriorityLevel'' \<in> {Undefined, Null, Str ''''} \<longrightarrow>
      checkOutOfRange_row Clients ''PriorityLevel'' 1 5 idx row st = st)
   \<and> (getf row ''PriorityLevel'' \<notin> {Undefined, Null, Str ''''}
        \<and> js_Number (getf row ''PriorityLevel'') \<in> {Num 0, Num 6} \<longrightarrow>
        get_field Clients (row_key row idx) ''PriorityLevel''
            (checkOutOfRange_row Clients ''PriorityLevel'' 1 5 idx row st)
          = Some ''Value must be between 1 and 5''
        \<and> summary (checkOutOfRange_row Clients ''PriorityLevel'' 1 5 idx row st)
          = summary st @ [''clients: Row '' @ row_no idx @ '' PriorityLevel value ''
                           @ js_ToString (getf row ''PriorityLevel'')
                           @ '' is out of range [1, 5]''])
   \<and> (js_Number (getf row ''PriorityLevel'') \<in> {Num 1, Num 5} \<longrightarrow>
        checkOutOfRange_row Clients ''PriorityLevel'' 1 5 idx row st = st)"
  by (auto simp: checkOutOfRange_row_def Let_def out_of_range_def get_field_flag summary_flag
                 dec_int_1_5)

theorem C8_priority_range_witness:
  "get_field Clients ''0'' ''PriorityLevel''
     (checkOutOfRange_row Clients ''PriorityLevel'' 1 5 0
        [''PriorityLevel'' \<mapsto> Str ''6''] empty_result)
     = Some ''Value must be between 1 and 5''
   \<and> summary (checkOutOfRange_row Clients ''PriorityLevel'' 1 5 0
                 [''PriorityLevel'' \<mapsto> Str ''6''] empty_result)
     = [''clients: Row 1 PriorityLevel value 6 is out of range [1, 5]'']
   \<and> checkOutOfRange_row Clients ''PriorityLevel'' 1 5 0
        [''PriorityLevel'' \<mapsto> Num 5] empty_result
     = empty_result
   \<and> checkOutOfRange_row Clients ''PriorityLevel'' 1 5 0
        [''PriorityLevel'' \<mapsto> Str ''''] empty_result
     = empty_result"
proof -
  have n6: "string_to_number ''6'' = Num 6" by code_simp
  have k: "row_key [''PriorityLevel'' \<mapsto> Str ''6''] 0 = ''0''" by code_simp
  have r: "row_no 0 = ''1''" by code_simp
  have e: "summary empty_result = []" by (simp add: empty_result_def)
  show ?thesis
    using C8_priority_range [of "[''PriorityLevel'' \<mapsto> Str ''6'']" 0 empty_result]
          C8_priority_range [of "[''PriorityLevel'' \<mapsto> Num 5]" 0 empty_result]
          C8_priority_range [of "[''PriorityLevel'' \<mapsto> Str '''']" 0 empty_result]
    by (simp add: getf_def n6 k r e)
qed

subsection \<open>C9: overloaded workers\<close>

text \<open>
  C9, as stated, takes the default \<open>1\<close> for an absent \<open>MaxLoadPerPhase\<close> only and flags a
  worker exactly when its slot count is below its \<open>MaxLoadPerPhase\<close>. A worker with the
  empty slot list \<open>[]\<close> and \<open>MaxLoadPerPhase = 0\<close> is flagged although \<open>0 < 0\<close> is false: the
  code reads \<^verbatim>\<open>worker.MaxLoadPerPhase || 1\<close>.
\<close>

theorem C9_zero_load_counterexample:
  "parse_int_list (getf zero_load_worker ''AvailableSlots'') = Inr []
   \<and> getf zero_load_worker ''MaxLoadPerPhase'' = Num 0
   \<and> \<not> (of_nat (length ([] :: jsval list)) < (0 :: rat))
   \<and> summary (checkOverloadedWorkers_row 0 zero_load_worker empty_result)
       = [''workers: Row 1 worker is overloaded'']
   \<and> get_field Workers ''0'' ''MaxLoadPerPhase''
         (checkOverloadedWorkers_row 0 zero_load_worker empty_result)
       = Some ''Max load (0) exceeds available slots (0)''"
  by code_simp

text \<open>
  C9, amended. A worker whose \<open>AvailableSlots\<close> fails to parse is skipped. Otherwise, with
  a \<open>MaxLoadPerPhase\<close> that is a number other than \<open>0\<close>, the worker is flagged (field error
  on \<open>MaxLoadPerPhase\<close> and one summary line) exactly when its parsed slot list has fewer
  elements than that number; with a \<open>MaxLoadPerPhase\<close> that is absent, \<open>0\<close> or the empty
  string, it is flagged exactly when the parsed slot list is empty.
\<close>

theorem C9_overload_by_count:
  "(parse_int_list (getf worker ''AvailableSlots'') = Inl e \<longrightarrow>
      checkOverloadedWorkers_row idx worker st = st)
   \<and> (parse_int_list (getf worker ''AvailableSlots'') = Inr slots
        \<and> getf worker ''MaxLoadPerPhase'' = Num n \<and> n \<noteq> 0 \<longrightarrow>
      checkOverloadedWorkers_row idx worker st =
        (if of_nat (length slots) < n
         then flag Workers worker idx ''MaxLoadPerPhase''
                (''Max load ('' @ js_ToString (Num n) @ '') exceeds available slots (''
                   @ dec_nat (length slots) @ '')'')
                (''workers: Row '' @ row_no idx @ '' worker is overloaded'') st
         else st))
   \<and> (parse_int_list (getf worker ''AvailableSlots'') = Inr slots
        \<and> getf worker ''MaxLoadPerPhase'' \<in> {Undefined, Num 0, Str ''''} \<longrightarrow>
      checkOverloadedWorkers_row idx worker st =
        (if slots = []
         then flag Workers worker idx ''MaxLoadPerPhase''
                (''Max load ('' @ js_ToString (getf worker ''MaxLoadPerPhase'')
                   @ '') exceeds available slots (''
                   @ dec_nat (length slots) @ '')'')
                (''workers: Row '' @ row_no idx @ '' worker is overloaded'') st
         else st))"
  by (auto simp: checkOverloadedWorkers_row_def js_lt_Num js_or_def count_below_one)

theorem C9_overload_by_count_witness:
  "summary (checkOverloadedWorkers_row 0
              [''AvailableSlots'' \<mapsto> Str ''[1,2]'', ''MaxLoadPerPhase'' \<mapsto> Num 3] empty_result)
     = [''workers: Row 1 worker is overloaded'']
   \<and> checkOverloadedWorkers_row 0
        [''AvailableSlots'' \<mapsto> Str ''[1,2]'', ''MaxLoadPerPhase'' \<mapsto> Num 2] empty_result
     = empty_result
   \<and> checkOverloadedWorkers_row 0
        [''AvailableSlots'' \<mapsto> Str ''[1,2'', ''MaxLoadPerPhase'' \<mapsto> Num 3] empty_result
     = empty_result"
proof -
  have p: "parse_int_list (Str ''[1,2]'') = Inr [Num 1, Num 2]" by code_simp
  have q: "parse_int_list (Str ''[1,2'') = Inl SyntaxError" by code_simp
  have r: "row_no 0 = ''1''" by code_simp
  have e: "summary empty_result = []" by (simp add: empty_result_def)
  show ?thesis
    using C9_overload_by_count
            [of "[''AvailableSlots'' \<mapsto> Str ''[1,2]'', ''MaxLoadPerPhase'' \<mapsto> Num 3]"
                SyntaxError 0 empty_result "[Num 1, Num 2]" 3]
          C9_overload_by_count
            [of "[''AvailableSlots'' \<mapsto> Str ''[1,2]'', ''MaxLoadPerPhase'' \<mapsto> Num 2]"
                SyntaxError 0 empty_result "[Num 1, Num 2]" 2]
          C9_overload_by_count
            [of "[''AvailableSlots'' \<mapsto> Str ''[1,2'', ''MaxLoadPerPhase'' \<mapsto> Num 3]"
                SyntaxError 0 empty_result "[]" 3]
    by (simp add: getf_def p q r e summary_flag)
qed

subsection \<open>C10: the default for falsy values\<close>

text \<open>
  C10. \<^verbatim>\<open>v || 1\<close> is \<open>1\<close> for every falsy \<open>v\<close>, among them \<open>0\<close>, the empty string and an
  absent field. So a worker with a falsy \<open>MaxLoadPerPhase\<close> is flagged overloaded exactly
  when its parsed slot list is empty; a task with a falsy \<open>MaxConcurrent\<close> is flagged
  exactly when no worker is qualified; and in the phase-saturation check a falsy
  \<open>MaxLoadPerPhase\<close> or \<open>Duration\<close> counts as the number \<open>1\<close>.
\<close>

theorem C10_falsy_defaults:
  "\<not> truthy (Num 0) \<and> \<not> truthy (Str '''') \<and> \<not> truthy Undefined
   \<and> (\<not> truthy v \<longrightarrow> js_or v (Num 1) = Num 1)
   \<and> (\<not> truthy (getf worker ''MaxLoadPerPhase'')
        \<and> parse_int_list (getf worker ''AvailableSlots'') = Inr slots \<longrightarrow>
      checkOverloadedWorkers_row idx worker st =
        (if slots = []
         then flag Workers worker idx ''MaxLoadPerPhase''
                (''Max load ('' @ js_ToString (getf worker ''MaxLoadPerPhase'')
                   @ '') exceeds available slots ('' @ dec_nat (length slots) @ '')'')
                (''workers: Row '' @ row_no idx @ '' worker is overloaded'') st
         else st))
   \<and> (\<not> truthy (getf task ''MaxConcurrent'') \<and> truthy (getf task ''RequiredSkills'')
        \<and> parse_list_trimmed (getf task ''RequiredSkills'') = Inr skills \<longrightarrow>
      checkMaxConcurrencyFeasibility_row workers idx task st =
        (if filter (is_qualified skills) workers = []
         then flag Tasks task idx ''MaxConcurrent''
                (''Max concurrent ('' @ js_ToString (getf task ''MaxConcurrent'')
                   @ '') exceeds qualified workers (''
                   @ dec_nat (length (filter (is_qualified skills) workers)) @ '')'')
                (''tasks: Row '' @ row_no idx @ '' max concurrency not feasible'') st
         else st))
   \<and> (\<not> truthy (getf worker ''MaxLoadPerPhase'') \<longrightarrow>
      worker_slots_row worker tbl = worker_slots_row (worker(''MaxLoadPerPhase'' \<mapsto> Num 1)) tbl)
   \<and> (\<not> truthy (getf task ''Duration'') \<longrightarrow>
      task_phases_row task tbl = task_phases_row (task(''Duration'' \<mapsto> Num 1)) tbl)"
  by (auto simp: checkOverloadedWorkers_row_def checkMaxConcurrencyFeasibility_row_def Let_def
                 js_lt_Num js_or_def count_below_one worker_slots_row_def task_phases_row_def
                 getf_def
           split: sum.splits)

theorem C10_falsy_defaults_witness:
  "summary (checkOverloadedWorkers_row 0
              [''AvailableSlots'' \<mapsto> Str ''[]'', ''MaxLoadPerPhase'' \<mapsto> Str ''''] empty_result)
     = [''workers: Row 1 worker is overloaded'']
   \<and> checkOverloadedWorkers_row 0
        [''AvailableSlots'' \<mapsto> Str ''1,2'', ''MaxLoadPerPhase'' \<mapsto> Num 0] empty_result
     = empty_result
   \<and> worker_slots_row [''AvailableSlots'' \<mapsto> Str ''1,2'', ''MaxLoadPerPhase'' \<mapsto> Num 0] []
     = [(''1'', Num 1, Num 0), (''2'', Num 1, Num 0)]"
proof -
  have p: "parse_int_list (Str ''[]'') = Inr []" by code_simp
  have q: "parse_int_list (Str ''1,2'') = Inr [Num 1, Num 2]" by code_simp
  have r: "row_no 0 = ''1''" by code_simp
  have e: "summary empty_result = []" by (simp add: empty_result_def)
  have w: "worker_slots_row [''AvailableSlots'' \<mapsto> Str ''1,2'', ''MaxLoadPerPhase'' \<mapsto> Num 1] []
             = [(''1'', Num 1, Num 0), (''2'', Num 1, Num 0)]" by code_simp
  show ?thesis
    using C10_falsy_defaults
            [of "Num 0" "[''AvailableSlots'' \<mapsto> Str ''[]'', ''MaxLoadPerPhase'' \<mapsto> Str '''']"
                "[]" 0 empty_result Map.empty "[]" "[]" "[]"]
          C10_falsy_defaults
            [of "Num 0" "[''AvailableSlots'' \<mapsto> Str ''1,2'', ''MaxLoadPerPhase'' \<mapsto> Num 0]"
                "[Num 1, Num 2]" 0 empty_result Map.empty "[]" "[]" "[]"]
    by (simp add: getf_def p q r e w summary_flag)
qed

end
